theory Spec2Isabelle
  imports Main "HOL-Library.Sublist" "HOL-Library.Word"
begin

text \<open>
  A model of \<open>paper_translator.py\<close> (\<open>src/test1.py\<close>): the function
  \<open>translate_text_with_ollama\<close>, which sends an abstract to a local text-generation
  endpoint and cleans the answer, the test \<open>is_translation_error\<close>, and the loop of
  \<open>search_and_translate_papers\<close> over the papers found. The library calls the program
  makes (\<open>requests.post\<close>, \<open>bytes.decode\<close>, \<open>json.loads\<close>, \<open>str.strip\<close>,
  \<open>str.replace\<close>, \<open>str.startswith\<close>, \<open>dict.get\<close>) are modelled after CPython. The search
  on arXiv, the command line and the file name are not part of the model.
\<close>

section \<open>Python strings\<close>

text \<open>
  A Python \<open>str\<close> is a sequence of Unicode code points, so it is modelled as a list of
  natural numbers, one per code point. ASCII literals of the source are written as HOL
  string literals and converted with \<open>asc\<close>; the Japanese literals are written out as
  code points.
\<close>

type_synonym pystr = "nat list"

definition asc :: "string \<Rightarrow> pystr" where
  "asc s = map of_char s"

text \<open>
  \<open>str.replace(old, new)\<close>: the occurrences of \<open>old\<close> are found from left to right and do
  not overlap; the search resumes after each replaced occurrence. With an empty \<open>old\<close>
  Python puts \<open>new\<close> before every character and at the end.
\<close>

function replace :: "pystr \<Rightarrow> pystr \<Rightarrow> pystr \<Rightarrow> pystr" where
  "replace old new s =
     (if old = [] then new @ concat (map (\<lambda>c. c # new) s)
      else if prefix old s then new @ replace old new (drop (length old) s)
      else (case s of [] \<Rightarrow> [] | c # cs \<Rightarrow> c # replace old new cs))"
  by pat_completeness auto
termination
  by (relation "measure (\<lambda>(old, new, s). length s)") (auto simp: prefix_def)

declare replace.simps [simp del]

text \<open>
  \<open>str.isspace\<close> on one code point, as CPython decides it: the ASCII table
  \<open>_Py_ascii_whitespace\<close> below 128 and \<open>_PyUnicode_IsWhitespace\<close> above.
\<close>

definition py_isspace :: "nat \<Rightarrow> bool" where
  "py_isspace c =
     ((0x09 \<le> c \<and> c \<le> 0x0D) \<or> (0x1C \<le> c \<and> c \<le> 0x20) \<or> c = 0x85 \<or> c = 0xA0
      \<or> c = 0x1680 \<or> (0x2000 \<le> c \<and> c \<le> 0x200A) \<or> c = 0x2028 \<or> c = 0x2029
      \<or> c = 0x202F \<or> c = 0x205F \<or> c = 0x3000)"

text \<open>\<open>str.strip()\<close> without argument removes leading and trailing whitespace.\<close>

definition strip :: "pystr \<Rightarrow> pystr" where
  "strip s = rev (dropWhile py_isspace (rev (dropWhile py_isspace s)))"

text \<open>\<open>str.startswith\<close> is \<^const>\<open>prefix\<close>.\<close>

section \<open>The literals of the source\<close>

text \<open>Line 57: the two boilerplate phrases, in list order.\<close>

definition phrase1 :: pystr where
  "phrase1 = asc ''Here is the translation:''"

definition phrase2 :: pystr where
  "phrase2 = asc ''Here is the translation of the English text into Japanese:''"

definition unwanted_phrases :: "pystr list" where
  "unwanted_phrases = [phrase1, phrase2]"

text \<open>
  Line 73: the marker U+7FFB U+8A33 U+30A8 U+30E9 U+30FC that \<open>is_translation_error\<close>
  looks for.
\<close>

definition error_marker :: pystr where
  "error_marker = [0x7FFB, 0x8A33, 0x30A8, 0x30E9, 0x30FC]"

text \<open>Line 65: the string returned when the request fails (51 code points).\<close>

definition connection_error_message :: pystr where
  "connection_error_message =
     [0x7FFB, 0x8A33, 0x30A8, 0x30E9, 0x30FC, 0xFF1A] @ asc ''Ollama API''
     @ [0x306B, 0x63A5, 0x7D9A, 0x3067, 0x304D, 0x307E, 0x305B, 0x3093, 0x3067, 0x3057, 0x305F,
        0x3002] @ asc ''Ollama''
     @ [0x304C, 0x8D77, 0x52D5, 0x3057, 0x3066, 0x3044, 0x308B, 0x304B, 0x78BA, 0x8A8D, 0x3057,
        0x3066, 0x304F, 0x3060, 0x3055, 0x3044, 0x3002]"

text \<open>Line 67: the string returned when the body is not JSON (31 code points).\<close>

definition parse_error_message :: pystr where
  "parse_error_message =
     [0x7FFB, 0x8A33, 0x30A8, 0x30E9, 0x30FC, 0xFF1A] @ asc ''Ollama''
     @ [0x304B, 0x3089, 0x306E, 0x30EC, 0x30B9, 0x30DD, 0x30F3, 0x30B9, 0x306E, 0x89E3, 0x6790,
        0x306B, 0x5931, 0x6557, 0x3057, 0x307E, 0x3057, 0x305F, 0x3002]"

text \<open>Line 54: the default of \<open>response_data.get\<close> (11 code points).\<close>

definition no_result_sentinel :: pystr where
  "no_result_sentinel =
     [0x7FFB, 0x8A33, 0x7D50, 0x679C, 0x304C, 0x3042, 0x308A, 0x307E, 0x305B, 0x3093, 0x3002]"

text \<open>
  Lines 28 to 40: the f-string of the prompt, cut at its only slot \<open>{text}\<close>.
\<close>

definition prompt_head :: pystr where
  "prompt_head = asc
     (''You are a silent, professional Japanese translation engine. Your task is to translate the following English academic abstract into Japanese.\<newline>''
      @ ''\<newline>''
      @ ''**Strict Instructions:**\<newline>''
      @ ''- **CRITICAL: You MUST output using Japanese characters (Kanji, Hiragana, Katakana). Do NOT use Romaji.**\<newline>''
      @ ''- Translate the text into natural-sounding, clear, and accurate Japanese.\<newline>''
      @ ''- Maintain a professional and academic tone.\<newline>''
      @ ''- **CRITICAL: You MUST complete the translation.** Do not stop halfway.\<newline>''
      @ ''- **CRITICAL: Do NOT output ANYTHING other than the translated Japanese text.** Do not include preambles, apologies, or any meta-commentary.\<newline>''
      @ ''\<newline>''
      @ ''--- English Abstract ---\<newline>'')"

definition prompt_tail :: pystr where
  "prompt_tail = asc (''\<newline>'' @ ''--- End of Abstract ---\<newline>'')"

text \<open>Line 11.\<close>

definition OLLAMA_API_URL :: pystr where
  "OLLAMA_API_URL = asc ''http://localhost:11434/api/generate''"

section \<open>The cleanup pass and the error test\<close>

text \<open>
  Lines 58 and 59: \<open>for phrase in unwanted_phrases: translated_text =
  translated_text.replace(phrase, "")\<close>.
\<close>

definition remove_unwanted :: "pystr \<Rightarrow> pystr" where
  "remove_unwanted translated_text =
     foldl (\<lambda>t phrase. replace phrase [] t) translated_text unwanted_phrases"

text \<open>Lines 69 to 73.\<close>

definition is_translation_error :: "pystr \<Rightarrow> bool" where
  "is_translation_error translated_text = prefix error_marker translated_text"

section \<open>Decoding the response body\<close>

text \<open>
  Line 52: \<open>response.content.decode('utf-8', errors='ignore')\<close>. The decoder is CPython's
  \<open>utf8_decode\<close>: \<open>utf8_step\<close> looks at the lead byte \<open>ch\<close> and the bytes \<open>s\<close> after it
  and returns the code point, if the sequence is well formed, and the number of bytes
  used. On an error the \<open>ignore\<close> handler returns the empty string, so the bytes of the
  error range are dropped: one byte for an invalid start byte, the bytes before the
  offending one for an invalid continuation byte, all the remaining bytes for a sequence
  cut off by the end of the data. Overlong forms, surrogates and values above U+10FFFF are
  rejected at the second byte, as in CPython. Bytes are read as numbers below 256.
\<close>

type_synonym byte = "8 word"

definition is_continuation :: "nat \<Rightarrow> bool" where
  "is_continuation b = (0x80 \<le> b \<and> b < 0xC0)"

text \<open>
  The code point of a sequence of two, three and four bytes, as CPython computes it:
  \<open>(ch << 6) + ch2 - ((0xC0 << 6) + 0x80)\<close> and its longer forms.
\<close>

definition join2 :: "nat \<Rightarrow> nat \<Rightarrow> nat" where
  "join2 ch ch2 = ch * 64 + ch2 - (0xC0 * 64 + 0x80)"

definition join3 :: "nat \<Rightarrow> nat \<Rightarrow> nat \<Rightarrow> nat" where
  "join3 ch ch2 ch3 = ch * 4096 + ch2 * 64 + ch3 - (0xE0 * 4096 + 0x80 * 64 + 0x80)"

definition join4 :: "nat \<Rightarrow> nat \<Rightarrow> nat \<Rightarrow> nat \<Rightarrow> nat" where
  "join4 ch ch2 ch3 ch4 =
     ch * 262144 + ch2 * 4096 + ch3 * 64 + ch4
     - (0xF0 * 262144 + 0x80 * 4096 + 0x80 * 64 + 0x80)"

definition utf8_step :: "nat \<Rightarrow> nat list \<Rightarrow> nat option \<times> nat" where
  "utf8_step ch s =
     (if ch < 0x80 then (Some ch, 1)
      else if ch < 0xC2 then (None, 1)
      else if ch < 0xE0 then
        (case s of
           [] \<Rightarrow> (None, 1)
         | ch2 # s2 \<Rightarrow>
             if is_continuation ch2
             then (Some (join2 ch ch2), 2)
             else (None, 1))
      else if ch < 0xF0 then
        (case s of
           [] \<Rightarrow> (None, 1)
         | ch2 # s2 \<Rightarrow>
             if is_continuation ch2
                \<and> (if ch = 0xE0 then 0xA0 \<le> ch2 else if ch = 0xED then ch2 < 0xA0 else True)
             then (case s2 of
                     [] \<Rightarrow> (None, 2)
                   | ch3 # s3 \<Rightarrow>
                       if is_continuation ch3
                       then (Some (join3 ch ch2 ch3), 3)
                       else (None, 2))
             else (None, 1))
      else if ch < 0xF5 then
        (case s of
           [] \<Rightarrow> (None, 1)
         | ch2 # s2 \<Rightarrow>
             if is_continuation ch2
                \<and> (if ch = 0xF0 then 0x90 \<le> ch2 else if ch = 0xF4 then ch2 < 0x90 else True)
             then (case s2 of
                     [] \<Rightarrow> (None, 2)
                   | ch3 # s3 \<Rightarrow>
                       if is_continuation ch3
                       then (case s3 of
                               [] \<Rightarrow> (None, 3)
                             | ch4 # s4 \<Rightarrow>
                                 if is_continuation ch4
                                 then (Some (join4 ch ch2 ch3 ch4), 4)
                                 else (None, 3))
                       else (None, 2))
             else (None, 1))
      else (None, 1))"

lemma utf8_step_pos: "0 < snd (utf8_step ch s)"
  by (simp add: utf8_step_def split: list.split)

function utf8_decode_ignore :: "nat list \<Rightarrow> pystr" where
  "utf8_decode_ignore [] = []"
| "utf8_decode_ignore (ch # s) =
     (case utf8_step ch s of
        (None, n) \<Rightarrow> utf8_decode_ignore (drop n (ch # s))
      | (Some c, n) \<Rightarrow> c # utf8_decode_ignore (drop n (ch # s)))"
  by pat_completeness auto
termination
proof (relation "measure length")
  fix ch s x1 n
  assume "(x1, n) = utf8_step ch s"
  then have "0 < n" using utf8_step_pos [of ch s] by (metis snd_conv)
  then have shorter: "(drop n (ch # s), ch # s) \<in> measure length" by simp
  show "(drop n (ch # s), ch # s) \<in> measure length" by (rule shorter)
  show "(drop n (ch # s), ch # s) \<in> measure length" by (rule shorter)
qed simp

declare utf8_decode_ignore.simps [simp del]

definition bytes_decode :: "byte list \<Rightarrow> pystr" where
  "bytes_decode content = utf8_decode_ignore (map unat content)"

text \<open>
  \<open>str.encode('utf-8')\<close> on one code point that is not a surrogate; it is used to state
  what the decoder keeps.
\<close>

definition utf8_encode_char :: "nat \<Rightarrow> nat list" where
  "utf8_encode_char c =
     (if c < 0x80 then [c]
      else if c < 0x800 then [0xC0 + c div 64, 0x80 + c mod 64]
      else if c < 0x10000 then [0xE0 + c div 4096, 0x80 + c div 64 mod 64, 0x80 + c mod 64]
      else [0xF0 + c div 262144, 0x80 + c div 4096 mod 64, 0x80 + c div 64 mod 64,
            0x80 + c mod 64])"

definition utf8_encode :: "pystr \<Rightarrow> nat list" where
  "utf8_encode s = concat (map utf8_encode_char s)"

text \<open>A Unicode scalar value: a code point that is not a surrogate.\<close>

definition is_scalar_value :: "nat \<Rightarrow> bool" where
  "is_scalar_value c = (c < 0xD800 \<or> (0xE000 \<le> c \<and> c < 0x110000))"

section \<open>Parsing the body as JSON\<close>

text \<open>
  Line 53: \<open>json.loads(response_text)\<close>, the decoder of the Python standard library with
  its default settings (strict strings, the C scanner's ASCII digits, the constants
  \<open>NaN\<close>, \<open>Infinity\<close> and \<open>-Infinity\<close> accepted). Every parsing function takes the text
  from the current position on and returns the value with the text left over, or the
  exception it raises. A number is kept as its lexeme, since the program never reads
  one. An object is kept as its pairs in source order; \<open>dict_get\<close> below reads it as the
  dictionary Python builds from them.
\<close>

datatype json = JNull | JBool bool | JNumber pystr | JString pystr
  | JArray "json list" | JObject "(pystr \<times> json) list"

text \<open>
  The exceptions that can be raised in the lines modelled. \<open>RequestException\<close> stands for
  all its subclasses. \<open>JSONDecodeError\<close> is a subclass of \<open>ValueError\<close>, but the
  \<open>ValueError\<close> here is the one raised by the conversion of a long integer, which is not a
  \<open>JSONDecodeError\<close> and is not caught at line 66.
\<close>

datatype py_exception = RequestException | JSONDecodeError | AttributeError
  | ValueError | RecursionError | UnicodeEncodeError

text \<open>
  Two limits of the interpreter decide whether \<open>json.loads\<close> raises something else than
  \<open>JSONDecodeError\<close>. \<open>recursion_depth\<close> is the number of nested arrays and objects the
  scanner may still enter when \<open>json.loads\<close> is called: the scanner enters a recursive call
  for every \<open>[\<close> and \<open>{\<close> and raises \<open>RecursionError\<close> when none is left. Its value is
  the recursion limit less the calls already on the stack, so it is a parameter.
  \<open>int_max_str_digits\<close> is \<open>sys.get_int_max_str_digits()\<close>: an integer with more digits
  raises \<open>ValueError\<close>; 0 switches the test off, and the test is only made above 640
  digits. Memory is not a limit in the model.
\<close>

record interpreter =
  recursion_depth :: nat
  int_max_str_digits :: nat

text \<open>
  The defaults of CPython: a recursion limit of 1000, taken as the depth available (the
  calls on the stack make it a little less), and 4300 digits.
\<close>

definition cpython_defaults :: interpreter where
  "cpython_defaults = \<lparr>recursion_depth = 1000, int_max_str_digits = 4300\<rparr>"

text \<open>The whitespace the decoder skips between tokens: \<open>[ \\t\\n\\r]*\<close>.\<close>

definition is_ws :: "nat \<Rightarrow> bool" where
  "is_ws c = (c = 0x20 \<or> c = 0x09 \<or> c = 0x0A \<or> c = 0x0D)"

definition skip_ws :: "pystr \<Rightarrow> pystr" where
  "skip_ws s = dropWhile is_ws s"

text \<open>
  \<open>scanstring\<close> reads a string from just after its opening quote: up to the closing
  quote, with the escapes of \<open>BACKSLASH\<close>, \<open>\\uXXXX\<close> escapes (a high surrogate followed by
  an escaped low surrogate is one code point; a lone surrogate stays) and no control
  character below U+0020. \<open>scan_escape\<close> returns the character of the escape that follows a
  backslash and the number of characters of the escape. Both can only fail with
  \<open>JSONDecodeError\<close>, which is their \<open>None\<close>.
\<close>

definition hexval :: "nat \<Rightarrow> nat option" where
  "hexval c =
     (if 0x30 \<le> c \<and> c \<le> 0x39 then Some (c - 0x30)
      else if 0x41 \<le> c \<and> c \<le> 0x46 then Some (c - 0x41 + 10)
      else if 0x61 \<le> c \<and> c \<le> 0x66 then Some (c - 0x61 + 10)
      else None)"

definition decode_uXXXX :: "pystr \<Rightarrow> nat option" where
  "decode_uXXXX s =
     (case s of
        h1 # h2 # h3 # h4 # _ \<Rightarrow>
          (case (hexval h1, hexval h2, hexval h3, hexval h4) of
             (Some a, Some b, Some c, Some d) \<Rightarrow> Some (((a * 16 + b) * 16 + c) * 16 + d)
           | _ \<Rightarrow> None)
      | _ \<Rightarrow> None)"

definition backslash :: "nat \<Rightarrow> nat option" where
  "backslash esc =
     (if esc = 0x22 then Some 0x22
      else if esc = 0x5C then Some 0x5C
      else if esc = 0x2F then Some 0x2F
      else if esc = 0x62 then Some 0x08
      else if esc = 0x66 then Some 0x0C
      else if esc = 0x6E then Some 0x0A
      else if esc = 0x72 then Some 0x0D
      else if esc = 0x74 then Some 0x09
      else None)"

definition scan_escape :: "pystr \<Rightarrow> (nat \<times> nat) option" where
  "scan_escape s =
     (case s of
        [] \<Rightarrow> None
      | esc # s1 \<Rightarrow>
          if esc = 0x75 then
            (case decode_uXXXX s1 of
               None \<Rightarrow> None
             | Some uni \<Rightarrow>
                 if 0xD800 \<le> uni \<and> uni \<le> 0xDBFF \<and> take 2 (drop 4 s1) = [0x5C, 0x75] then
                   (case decode_uXXXX (drop 6 s1) of
                      None \<Rightarrow> None
                    | Some uni2 \<Rightarrow>
                        if 0xDC00 \<le> uni2 \<and> uni2 \<le> 0xDFFF
                        then Some (0x10000 + ((uni - 0xD800) * 1024 + (uni2 - 0xDC00)), 11)
                        else Some (uni, 5))
                 else Some (uni, 5))
          else (case backslash esc of None \<Rightarrow> None | Some c \<Rightarrow> Some (c, 1)))"

function scanstring :: "pystr \<Rightarrow> (pystr \<times> pystr) option" where
  "scanstring [] = None"
| "scanstring (c # s) =
     (if c = 0x22 then Some ([], s)
      else if c = 0x5C then
        (case scan_escape s of
           None \<Rightarrow> None
         | Some (ch, n) \<Rightarrow>
             (case scanstring (drop n s) of
                None \<Rightarrow> None
              | Some (t, r) \<Rightarrow> Some (ch # t, r)))
      else if c \<le> 0x1F then None
      else (case scanstring s of None \<Rightarrow> None | Some (t, r) \<Rightarrow> Some (c # t, r)))"
  by pat_completeness auto
termination
  by (relation "measure length") auto

lemma scanstring_shorter: "scanstring s = Some (t, r) \<Longrightarrow> length r < length s"
proof (induction s arbitrary: t r rule: scanstring.induct)
  case 1
  then show ?case by simp
next
  case (2 c s)
  then show ?case
    by (fastforce split: if_splits option.splits prod.splits)
qed

text \<open>
  The number pattern \<open>(-?(?:0|[1-9][0-9]*))(\\.[0-9]+)?([eE][-+]?[0-9]+)?\<close>, matched at the
  current position; the optional groups match the empty string when they do not fit.
\<close>

definition is_digit :: "nat \<Rightarrow> bool" where
  "is_digit c = (0x30 \<le> c \<and> c \<le> 0x39)"

definition match_integer :: "pystr \<Rightarrow> (pystr \<times> pystr) option" where
  "match_integer s =
     (let (sign, s1) = (case s of [] \<Rightarrow> ([], s) | c # r \<Rightarrow> if c = 0x2D then ([c], r) else ([], s))
      in case s1 of
           [] \<Rightarrow> None
         | d # r \<Rightarrow>
             if d = 0x30 then Some (sign @ [d], r)
             else if is_digit d then Some (sign @ d # takeWhile is_digit r, dropWhile is_digit r)
             else None)"

definition match_frac :: "pystr \<Rightarrow> pystr \<times> pystr" where
  "match_frac s =
     (case s of
        c # d # r \<Rightarrow>
          if c = 0x2E \<and> is_digit d
          then (c # d # takeWhile is_digit r, dropWhile is_digit r)
          else ([], s)
      | _ \<Rightarrow> ([], s))"

definition match_exp :: "pystr \<Rightarrow> pystr \<times> pystr" where
  "match_exp s =
     (case s of
        [] \<Rightarrow> ([], s)
      | e # r \<Rightarrow>
          if e = 0x45 \<or> e = 0x65 then
            (let (sign, r1) = (case r of [] \<Rightarrow> ([], r)
                               | c # r' \<Rightarrow> if c = 0x2D \<or> c = 0x2B then ([c], r') else ([], r))
             in case r1 of
                  [] \<Rightarrow> ([], s)
                | d # r2 \<Rightarrow>
                    if is_digit d
                    then (e # sign @ d # takeWhile is_digit r2, dropWhile is_digit r2)
                    else ([], s))
          else ([], s))"

definition match_number :: "pystr \<Rightarrow> (pystr \<times> pystr \<times> pystr \<times> pystr) option" where
  "match_number s =
     (case match_integer s of
        None \<Rightarrow> None
      | Some (integer, s1) \<Rightarrow>
          (let (frac, s2) = match_frac s1; (exp, s3) = match_exp s2
           in Some (integer, frac, exp, s3)))"

text \<open>
  A number without fraction and exponent is converted by \<open>int\<close>, which refuses more
  digits than the limit; any other number is converted by \<open>float\<close>, which has no limit.
\<close>

definition int_too_long :: "interpreter \<Rightarrow> pystr \<Rightarrow> bool" where
  "int_too_long py integer =
     (let digits = length (filter is_digit integer)
      in 640 < digits \<and> 0 < int_max_str_digits py \<and> int_max_str_digits py < digits)"

text \<open>The branches of \<open>scan_once\<close> that are neither a string nor a container.\<close>

definition scan_literal :: "interpreter \<Rightarrow> pystr \<Rightarrow> py_exception + json \<times> pystr" where
  "scan_literal py s =
     (if prefix (asc ''null'') s then Inr (JNull, drop 4 s)
      else if prefix (asc ''true'') s then Inr (JBool True, drop 4 s)
      else if prefix (asc ''false'') s then Inr (JBool False, drop 5 s)
      else (case match_number s of
              Some (integer, frac, exp, r) \<Rightarrow>
                if frac = [] \<and> exp = [] \<and> int_too_long py integer then Inl ValueError
                else Inr (JNumber (integer @ frac @ exp), r)
            | None \<Rightarrow>
                if prefix (asc ''NaN'') s then Inr (JNumber (asc ''NaN''), drop 3 s)
                else if prefix (asc ''Infinity'') s
                then Inr (JNumber (asc ''Infinity''), drop 8 s)
                else if prefix (asc ''-Infinity'') s
                then Inr (JNumber (asc ''-Infinity''), drop 9 s)
                else Inl JSONDecodeError))"

lemma skip_ws_le: "length (skip_ws s) \<le> length s"
  by (simp add: skip_ws_def length_dropWhile_le)

lemma skip_ws_Cons_less: "skip_ws s = d # r \<Longrightarrow> length r < length s"
  using skip_ws_le [of s] by simp

text \<open>
  \<open>scan_once\<close> reads one value, with \<open>d\<close> the number of containers it may still enter;
  \<open>JSONArray\<close> reads the elements of a non-empty array from its first element on and
  \<open>JSONObject\<close> the pairs of a non-empty object from just after the opening quote of a
  key. A value always uses at least one character; the tests \<open>length r < length s\<close>
  record this for the termination proof and never fail (\<open>scan_once_shorter\<close> below).
\<close>

function scan_once :: "interpreter \<Rightarrow> nat \<Rightarrow> pystr \<Rightarrow> py_exception + json \<times> pystr"
  and JSONArray :: "interpreter \<Rightarrow> nat \<Rightarrow> pystr \<Rightarrow> py_exception + json list \<times> pystr"
  and JSONObject ::
    "interpreter \<Rightarrow> nat \<Rightarrow> pystr \<Rightarrow> py_exception + (pystr \<times> json) list \<times> pystr"
where
  "scan_once py d [] = Inl JSONDecodeError"
| "scan_once py d (c # s) =
     (if c = 0x22 then
        (case scanstring s of
           None \<Rightarrow> Inl JSONDecodeError
         | Some (t, r) \<Rightarrow> Inr (JString t, r))
      else if c = 0x7B then
        (if d = 0 then Inl RecursionError
         else (case skip_ws s of
                 [] \<Rightarrow> Inl JSONDecodeError
               | q # r \<Rightarrow>
                   if q = 0x7D then Inr (JObject [], r)
                   else if q = 0x22 then
                     (case JSONObject py (d - 1) r of
                        Inl e \<Rightarrow> Inl e
                      | Inr (pairs, r') \<Rightarrow> Inr (JObject pairs, r'))
                   else Inl JSONDecodeError))
      else if c = 0x5B then
        (if d = 0 then Inl RecursionError
         else (case skip_ws s of
                 [] \<Rightarrow> Inl JSONDecodeError
               | q # r \<Rightarrow>
                   if q = 0x5D then Inr (JArray [], r)
                   else (case JSONArray py (d - 1) (q # r) of
                           Inl e \<Rightarrow> Inl e
                         | Inr (values, r') \<Rightarrow> Inr (JArray values, r'))))
      else scan_literal py (c # s))"
| "JSONArray py d s =
     (case scan_once py d s of
        Inl e \<Rightarrow> Inl e
      | Inr (v, r) \<Rightarrow>
          if length r < length s then
            (case skip_ws r of
               [] \<Rightarrow> Inl JSONDecodeError
             | q # r1 \<Rightarrow>
                 if q = 0x5D then Inr ([v], r1)
                 else if q = 0x2C then
                   (case JSONArray py d (skip_ws r1) of
                      Inl e \<Rightarrow> Inl e
                    | Inr (values, r2) \<Rightarrow> Inr (v # values, r2))
                 else Inl JSONDecodeError)
          else Inl JSONDecodeError)"
| "JSONObject py d s =
     (case scanstring s of
        None \<Rightarrow> Inl JSONDecodeError
      | Some (key, r) \<Rightarrow>
          (case skip_ws r of
             [] \<Rightarrow> Inl JSONDecodeError
           | q # r1 \<Rightarrow>
               if q = 0x3A then
                 (case scan_once py d (skip_ws r1) of
                    Inl e \<Rightarrow> Inl e
                  | Inr (v, r2) \<Rightarrow>
                      if length r2 < length (skip_ws r1) then
                        (case skip_ws r2 of
                           [] \<Rightarrow> Inl JSONDecodeError
                         | e # r3 \<Rightarrow>
                             if e = 0x7D then Inr ([(key, v)], r3)
                             else if e = 0x2C then
                               (case skip_ws r3 of
                                  [] \<Rightarrow> Inl JSONDecodeError
                                | k # r4 \<Rightarrow>
                                    if k = 0x22 then
                                      (case JSONObject py d r4 of
                                         Inl e \<Rightarrow> Inl e
                                       | Inr (pairs, r5) \<Rightarrow> Inr ((key, v) # pairs, r5))
                                    else Inl JSONDecodeError)
                             else Inl JSONDecodeError)
                      else Inl JSONDecodeError)
               else Inl JSONDecodeError))"
  by pat_completeness auto
termination
  apply (relation "measure (\<lambda>x. case x of Inl (py, d, s) \<Rightarrow> 2 * length s
                                 | Inr (Inl (py, d, s)) \<Rightarrow> 2 * length s + 1
                                 | Inr (Inr (py, d, s)) \<Rightarrow> 2 * length s + 1)")
        apply simp_all
    apply (auto dest!: skip_ws_Cons_less scanstring_shorter)
  subgoal for py d s a b x22 using skip_ws_le [of x22] by linarith
  subgoal for s b x22 using skip_ws_le [of x22] by linarith
  subgoal for py d s b x22 using skip_ws_le [of x22] by linarith
  done

declare scan_once.simps [simp del] JSONArray.simps [simp del] JSONObject.simps [simp del]
declare scanstring.simps [simp del]

text \<open>
  \<open>json.loads\<close> on a \<open>str\<close>: a leading U+FEFF is refused, whitespace is skipped on both
  sides of the value, and anything left after it is an error.
\<close>

definition json_loads :: "interpreter \<Rightarrow> pystr \<Rightarrow> py_exception + json" where
  "json_loads py s =
     (if prefix [0xFEFF] s then Inl JSONDecodeError
      else (case scan_once py (recursion_depth py) (skip_ws s) of
              Inl e \<Rightarrow> Inl e
            | Inr (obj, r) \<Rightarrow> if skip_ws r = [] then Inr obj else Inl JSONDecodeError))"

text \<open>
  \<open>dict.get(key, default)\<close> on the dictionary built from the pairs: a key that occurs
  twice has the value of its last occurrence.
\<close>

definition dict_get :: "(pystr \<times> json) list \<Rightarrow> pystr \<Rightarrow> json \<Rightarrow> json" where
  "dict_get pairs key dflt =
     (case map_of (rev pairs) key of None \<Rightarrow> dflt | Some v \<Rightarrow> v)"

section \<open>The translation request\<close>

text \<open>
  Lines 42 to 48: the arguments of \<open>requests.post\<close>: the URL, the three entries of the
  \<open>payload\<close> dictionary sent as JSON, and the timeout in seconds.
\<close>

record request =
  url :: pystr
  model :: pystr
  prompt :: pystr
  stream :: bool
  timeout :: nat

text \<open>
  What \<open>requests.post\<close> can do with the request: raise for a connection that fails, raise
  for a timeout (both are subclasses of \<open>RequestException\<close>), or return a response with a
  status code and a body.
\<close>

datatype reply = ConnectionError | Timeout | Response nat "byte list"

text \<open>An endpoint that gives the same reply to every request.\<close>

definition fixed_endpoint :: "reply \<Rightarrow> request \<Rightarrow> reply" where
  "fixed_endpoint r request = r"

text \<open>
  The two outcome variants. The Python function returns a plain \<open>str\<close>; the constructor
  records which \<open>return\<close> produced it: line 61 (\<open>Success\<close>) or one of the handlers at lines
  65 and 67 (\<open>Failure\<close>). \<open>returned\<close> is the string the caller gets.
\<close>

datatype translation_result = Success pystr | Failure pystr

fun returned :: "translation_result \<Rightarrow> pystr" where
  "returned (Success t) = t"
| "returned (Failure t) = t"

text \<open>Lines 28 to 46.\<close>

definition build_request :: "pystr \<Rightarrow> pystr \<Rightarrow> request" where
  "build_request text model_name =
     \<lparr>url = OLLAMA_API_URL, model = model_name, prompt = prompt_head @ text @ prompt_tail,
      stream = False, timeout = 180\<rparr>"

text \<open>
  Lines 48 and 49: \<open>requests.post\<close> and \<open>raise_for_status\<close>, which raises \<open>HTTPError\<close> (a
  \<open>RequestException\<close>) for a status from 400 to 599.
\<close>

definition post_and_check :: "reply \<Rightarrow> py_exception + byte list" where
  "post_and_check r =
     (case r of
        ConnectionError \<Rightarrow> Inl RequestException
      | Timeout \<Rightarrow> Inl RequestException
      | Response status content \<Rightarrow>
          if 400 \<le> status \<and> status < 600 then Inl RequestException else Inr content)"

text \<open>
  Line 54: \<open>response_data.get("response", ...).strip()\<close>. Only a dictionary has \<open>get\<close> and
  only a string has \<open>strip\<close>: on any other value the attribute lookup raises
  \<open>AttributeError\<close>.
\<close>

definition extract_text :: "json \<Rightarrow> py_exception + pystr" where
  "extract_text response_data =
     (case response_data of
        JObject pairs \<Rightarrow>
          (case dict_get pairs (asc ''response'') (JString no_result_sentinel) of
             JString t \<Rightarrow> Inr (strip t)
           | _ \<Rightarrow> Inl AttributeError)
      | _ \<Rightarrow> Inl AttributeError)"

text \<open>Lines 48 to 61: the body of the \<open>try\<close>.\<close>

definition try_body :: "interpreter \<Rightarrow> reply \<Rightarrow> py_exception + pystr" where
  "try_body py r =
     (case post_and_check r of
        Inl e \<Rightarrow> Inl e
      | Inr content \<Rightarrow>
          (case json_loads py (bytes_decode content) of
             Inl e \<Rightarrow> Inl e
           | Inr response_data \<Rightarrow>
               (case extract_text response_data of
                  Inl e \<Rightarrow> Inl e
                | Inr translated_text \<Rightarrow> Inr (remove_unwanted translated_text))))"

text \<open>
  Lines 63 to 67: the two handlers. Any other exception leaves the function.
\<close>

definition handle :: "py_exception + pystr \<Rightarrow> py_exception + translation_result" where
  "handle r =
     (case r of
        Inr translated_text \<Rightarrow> Inr (Success translated_text)
      | Inl RequestException \<Rightarrow> Inr (Failure connection_error_message)
      | Inl JSONDecodeError \<Rightarrow> Inr (Failure parse_error_message)
      | Inl e \<Rightarrow> Inl e)"

text \<open>
  Lines 17 to 67. The endpoint is a function from the request to what \<open>requests.post\<close>
  does with it, and \<open>py\<close> holds the limits of the interpreter. The result is the list
  of the requests sent and either the exception that leaves the function or its
  outcome. The message printed at line 64 is not part of the model.
\<close>

definition translate_text_with_ollama ::
  "interpreter \<Rightarrow> (request \<Rightarrow> reply) \<Rightarrow> pystr \<Rightarrow> pystr
   \<Rightarrow> request list \<times> (py_exception + translation_result)"
where
  "translate_text_with_ollama py endpoint text model_name =
     (let payload = build_request text model_name
      in ([payload], handle (try_body py (endpoint payload))))"

section \<open>The loop over the papers\<close>

text \<open>
  Lines 108 to 139 of \<open>search_and_translate_papers\<close>. A paper has the three fields the
  loop reads. The state is what the loop does to the world: the strings written to the
  file (\<open>written\<close>), the number of one-second sleeps and the requests sent. \<open>net i\<close> is
  the endpoint as it behaves at the call for the paper with index \<open>i\<close>, and \<open>fill\<close>
  stands for \<open>textwrap.fill(_, width=50)\<close>, which is not modelled.

  The file is opened with \<open>encoding="utf-8"\<close>, so \<open>f.write\<close> at line 135 encodes its
  argument at once and raises \<open>UnicodeEncodeError\<close>, writing nothing, when the string holds
  a surrogate (\<open>json.loads\<close> makes one from an escape such as \<open>\\ud83d\<close>). An exception
  raised by the write or by \<open>translate_text_with_ollama\<close> leaves the loop (the handler at
  line 144 is outside the \<open>with\<close> block) and is returned with the state reached. The
  messages printed to the console are not part of the model: whether \<open>print\<close> can fail
  depends on the encoding of the console, which the program does not fix.
\<close>

record paper =
  title :: pystr
  summary :: pystr
  entry_id :: pystr

record run_state =
  written :: "pystr list"
  sleeps :: nat
  sent :: "request list"

text \<open>Lines 126 to 132.\<close>

definition output_content :: "paper \<Rightarrow> pystr \<Rightarrow> pystr" where
  "output_content result formatted_abstract =
     [0x25A0, 0x20, 0x30BF, 0x30A4, 0x30C8, 0x30EB, 0x3A, 0x20] @ title result @ [0x0A]
     @ [0x25A0, 0x20, 0x55, 0x52, 0x4C, 0x3A, 0x20] @ entry_id result @ [0x0A, 0x0A]
     @ [0x2D, 0x2D, 0x2D, 0x20, 0x7FFB, 0x8A33, 0x3055, 0x308C, 0x305F, 0x8981, 0x65E8, 0x20,
        0x2D, 0x2D, 0x2D, 0x0A]
     @ formatted_abstract @ [0x0A]
     @ replicate 50 0x2D @ [0x0A, 0x0A]"

text \<open>What the strict UTF-8 encoder of the file accepts: a string without surrogates.\<close>

definition encodable :: "pystr \<Rightarrow> bool" where
  "encodable s = list_all is_scalar_value s"

fun process_results ::
  "interpreter \<Rightarrow> (nat \<Rightarrow> request \<Rightarrow> reply) \<Rightarrow> (pystr \<Rightarrow> pystr) \<Rightarrow> pystr \<Rightarrow> nat \<Rightarrow> nat
   \<Rightarrow> paper list \<Rightarrow> run_state \<Rightarrow> py_exception option \<times> run_state"
where
  "process_results py net fill model_name n i [] st = (None, st)"
| "process_results py net fill model_name n i (result # results) st =
     (let abstract = replace [0x0A] [0x20] (summary result);
          call = translate_text_with_ollama py (net i) abstract model_name;
          st1 = st\<lparr>sent := sent st @ fst call\<rparr>
      in case snd call of
           Inl e \<Rightarrow> (Some e, st1)
         | Inr translated \<Rightarrow>
             (let formatted_abstract = fill (returned translated);
                  content = output_content result formatted_abstract
              in if encodable content then
                   (let st2 = st1\<lparr>written := written st1 @ [content]\<rparr>;
                        st3 = (if i < n - 1 then st2\<lparr>sleeps := sleeps st2 + 1\<rparr> else st2)
                    in process_results py net fill model_name n (i + 1) results st3)
                 else (Some UnicodeEncodeError, st1)))"

text \<open>
  Lines 100 to 139: with no result the function returns before the file is opened
  (\<open>None\<close>); otherwise the file is opened empty and the loop runs from index 0.
\<close>

definition search_and_translate_papers ::
  "interpreter \<Rightarrow> (nat \<Rightarrow> request \<Rightarrow> reply) \<Rightarrow> (pystr \<Rightarrow> pystr) \<Rightarrow> paper list \<Rightarrow> pystr
   \<Rightarrow> (py_exception option \<times> run_state) option"
where
  "search_and_translate_papers py net fill results model_name =
     (if results = [] then None
      else Some (process_results py net fill model_name (length results) 0 results
                   \<lparr>written = [], sleeps = 0, sent = []\<rparr>))"

text \<open>
  An endpoint that answers the call for the paper with index \<open>i\<close> with the \<open>i\<close>-th reply
  of a list, and refuses the connection after the end of the list.
\<close>

definition replies_in_turn :: "reply list \<Rightarrow> nat \<Rightarrow> request \<Rightarrow> reply" where
  "replies_in_turn replies i request =
     (if i < length replies then replies ! i else ConnectionError)"

section \<open>Rules for evaluating the model\<close>

lemma replace_Nil: "replace old new [] = (if old = [] then new else [])"
  by (subst replace.simps) simp

lemma replace_Cons:
  "replace old new (c # cs) =
     (if old = [] then new @ c # new @ concat (map (\<lambda>c. c # new) cs)
      else if prefix old (c # cs) then new @ replace old new (drop (length old) (c # cs))
      else c # replace old new cs)"
  by (subst replace.simps) simp

lemmas decode_eval = bytes_decode_def utf8_decode_ignore.simps utf8_step_def is_continuation_def
  join2_def join3_def join4_def

lemmas json_eval = json_loads_def scan_once.simps JSONArray.simps JSONObject.simps
  scanstring.simps skip_ws_def is_ws_def scan_literal_def match_number_def match_integer_def
  match_frac_def match_exp_def is_digit_def scan_escape_def decode_uXXXX_def hexval_def
  backslash_def asc_def int_too_long_def cpython_defaults_def

lemmas clean_eval = extract_text_def dict_get_def strip_def py_isspace_def remove_unwanted_def
  unwanted_phrases_def phrase1_def phrase2_def replace_Nil replace_Cons no_result_sentinel_def
  asc_def

lemmas translate_eval = translate_text_with_ollama_def try_body_def handle_def
  post_and_check_def fixed_endpoint_def




lemma handle_Success: "handle r = Inr (Success t) \<longleftrightarrow> r = Inr t"
  by (auto simp: handle_def split: sum.splits py_exception.splits)

lemma handle_raises:
  "handle r = Inl e \<longleftrightarrow> r = Inl e \<and> e \<noteq> RequestException \<and> e \<noteq> JSONDecodeError"
  by (auto simp: handle_def split: sum.splits py_exception.splits)

lemma sentinel_clean: "remove_unwanted (strip no_result_sentinel) = no_result_sentinel"
  by (simp add: clean_eval)

lemma sentinel_no_marker: "\<not> is_translation_error no_result_sentinel"
  by (simp add: is_translation_error_def error_marker_def no_result_sentinel_def)

lemma dict_get_absent: "key \<notin> fst ` set pairs \<Longrightarrow> dict_get pairs key d = d"
proof -
  assume "key \<notin> fst ` set pairs"
  then have "map_of (rev pairs) key = None"
    by (simp add: map_of_eq_None_iff)
  then show ?thesis by (simp add: dict_get_def)
qed

section \<open>Every JSON value uses input\<close>

text \<open>
  A value, an array body and an object body each use at least one character, so the
  length tests in \<open>JSONArray\<close> and \<open>JSONObject\<close> always succeed.
\<close>

lemma match_integer_shorter: "match_integer s = Some (l, r) \<Longrightarrow> length r < length s"
  by (auto simp: match_integer_def Let_def split: list.splits if_splits
      intro: le_less_trans [OF length_dropWhile_le])

lemma match_frac_le: "match_frac s = (l, r) \<Longrightarrow> length r \<le> length s"
  by (auto simp: match_frac_def split: list.splits if_splits
      intro: le_trans [OF length_dropWhile_le])

lemma match_exp_le: "match_exp s = (l, r) \<Longrightarrow> length r \<le> length s"
  by (auto simp: match_exp_def Let_def split: list.splits if_splits
      intro: le_trans [OF length_dropWhile_le])

lemma match_number_shorter:
  "match_number s = Some (l, fr, ex, r) \<Longrightarrow> length r < length s"
proof -
  assume a: "match_number s = Some (l, fr, ex, r)"
  then obtain i s1 where i: "match_integer s = Some (i, s1)"
    by (auto simp: match_number_def split: option.splits)
  obtain f s2 where f: "match_frac s1 = (f, s2)" by (cases "match_frac s1")
  obtain e s3 where e: "match_exp s2 = (e, s3)" by (cases "match_exp s2")
  from a i f e have "r = s3" by (simp add: match_number_def)
  with match_integer_shorter [OF i] match_frac_le [OF f] match_exp_le [OF e]
  show ?thesis by simp
qed

lemma scan_literal_shorter: "scan_literal py s = Inr (v, r) \<Longrightarrow> length r < length s"
proof -
  assume a: "scan_literal py s = Inr (v, r)"
  have p: "\<And>w. prefix (asc w) s \<Longrightarrow> w \<noteq> [] \<Longrightarrow> s \<noteq> []"
    by (auto simp: asc_def)
  show ?thesis
  proof (cases "match_number s")
    case None
    with a p show ?thesis
      by (auto simp: scan_literal_def split: if_splits)
  next
    case (Some x)
    then obtain l fr ex r' where "match_number s = Some (l, fr, ex, r')"
      by (cases x) auto
    with a p match_number_shorter [of s l fr ex r'] show ?thesis
      by (auto simp: scan_literal_def split: if_splits)
  qed
qed

lemma scan_shorter_all:
  "(\<forall>v r. scan_once py d s = Inr (v, r) \<longrightarrow> length r < length s)"
  "(\<forall>vs r. JSONArray py2 d2 s2 = Inr (vs, r) \<longrightarrow> length r < length s2)"
  "(\<forall>ps r. JSONObject py3 d3 s3 = Inr (ps, r) \<longrightarrow> length r < length s3)"
proof (induction py d s and py2 d2 s2 and py3 d3 s3
    rule: scan_once_JSONArray_JSONObject.induct)
  case (1 py d)
  show ?case by (simp add: scan_once.simps)
next
  case (2 py d c s)
  show ?case
  proof (intro allI impI)
    fix v r assume a: "scan_once py d (c # s) = Inr (v, r)"
    consider (str) "c = 0x22" | (obj) "c = 0x7B" | (arr) "c = 0x5B"
      | (lit) "c \<noteq> 0x22" "c \<noteq> 0x7B" "c \<noteq> 0x5B"
      by blast
    then show "length r < length (c # s)"
    proof cases
      case str
      with a obtain t where "scanstring s = Some (t, r)"
        by (auto simp: scan_once.simps split: option.splits)
      from scanstring_shorter [OF this] show ?thesis by simp
    next
      case obj
      with a have d: "d \<noteq> 0"
        by (auto simp: scan_once.simps split: if_splits)
      with a obj obtain q r0 where sk: "skip_ws s = q # r0"
        by (auto simp: scan_once.simps split: list.splits)
      from skip_ws_Cons_less [OF sk] have l0: "length r0 < length s" .
      show ?thesis
      proof (cases "q = 0x7D")
        case True
        with a obj d sk l0 show ?thesis by (simp add: scan_once.simps)
      next
        case False
        with a obj d sk have q: "q = 0x22"
          by (auto simp: scan_once.simps split: if_splits)
        with a obj d sk False obtain pairs where
          "JSONObject py (d - 1) r0 = Inr (pairs, r)"
          by (auto simp: scan_once.simps split: sum.splits)
        with 2(1) [OF _ _ d sk False q] obj have "length r < length r0" by simp
        with l0 show ?thesis by simp
      qed
    next
      case arr
      with a have d: "d \<noteq> 0"
        by (auto simp: scan_once.simps split: if_splits)
      with a arr obtain q r0 where sk: "skip_ws s = q # r0"
        by (auto simp: scan_once.simps split: list.splits)
      from skip_ws_le [of s] sk have l0: "length (q # r0) \<le> length s" by simp
      show ?thesis
      proof (cases "q = 0x5D")
        case True
        with a arr d sk l0 show ?thesis by (simp add: scan_once.simps)
      next
        case False
        with a arr d sk obtain vs where
          "JSONArray py (d - 1) (q # r0) = Inr (vs, r)"
          by (auto simp: scan_once.simps split: sum.splits)
        with 2(2) [OF _ _ _ d sk False] arr have "length r < length (q # r0)" by simp
        with l0 show ?thesis by simp
      qed
    next
      case lit
      with a have "scan_literal py (c # s) = Inr (v, r)"
        by (simp add: scan_once.simps)
      from scan_literal_shorter [OF this] show ?thesis .
    qed
  qed
next
  case (3 py d s)
  show ?case
  proof (intro allI impI)
    fix vs r assume a: "JSONArray py d s = Inr (vs, r)"
    then obtain v r0 where v: "scan_once py d s = Inr (v, r0)"
      by (subst (asm) JSONArray.simps) (auto split: sum.splits)
    with 3(1) have l0: "length r0 < length s" by simp
    from a v l0 obtain q r1 where sk: "skip_ws r0 = q # r1"
      by (subst (asm) JSONArray.simps) (auto split: list.splits)
    from skip_ws_Cons_less [OF sk] have l1: "length r1 < length r0" .
    show "length r < length s"
    proof (cases "q = 0x5D")
      case True
      with a v l0 sk have "r = r1"
        by (subst (asm) JSONArray.simps) simp
      with l0 l1 show ?thesis by simp
    next
      case False
      with a v l0 sk have c: "q = 0x2C"
        by (subst (asm) JSONArray.simps) (auto split: if_splits)
      with a v l0 sk False obtain vs' where
        rec: "JSONArray py d (skip_ws r1) = Inr (vs', r)"
        by (subst (asm) JSONArray.simps) (auto split: sum.splits)
      from 3(2) [OF v _ l0 sk False c] rec have "length r < length (skip_ws r1)"
        by simp
      with skip_ws_le [of r1] l0 l1 show ?thesis by simp
    qed
  qed
next
  case (4 py d s)
  show ?case
  proof (intro allI impI)
    fix ps r assume a: "JSONObject py d s = Inr (ps, r)"
    then obtain key r0 where k: "scanstring s = Some (key, r0)"
      by (subst (asm) JSONObject.simps) (auto split: option.splits)
    from scanstring_shorter [OF k] have l0: "length r0 < length s" .
    from a k obtain q r1 where sk1: "skip_ws r0 = q # r1"
      by (subst (asm) JSONObject.simps) (auto split: list.splits)
    from skip_ws_Cons_less [OF sk1] have l1: "length r1 < length r0" .
    from a k sk1 have col: "q = 0x3A"
      by (subst (asm) JSONObject.simps) (auto split: if_splits)
    from a k sk1 col obtain v r2 where v: "scan_once py d (skip_ws r1) = Inr (v, r2)"
      by (subst (asm) JSONObject.simps) (auto split: sum.splits)
    from 4(1) [OF k _ sk1 col] v have l2: "length r2 < length (skip_ws r1)" by simp
    from a k sk1 col v l2 obtain e r3 where sk2: "skip_ws r2 = e # r3"
      by (subst (asm) JSONObject.simps) (auto split: list.splits)
    from skip_ws_Cons_less [OF sk2] have l3: "length r3 < length r2" .
    from l0 l1 l2 l3 skip_ws_le [of r1] have l03: "length r3 < length s" by simp
    show "length r < length s"
    proof (cases "e = 0x7D")
      case True
      with a k sk1 col v l2 sk2 have "r = r3"
        by (subst (asm) JSONObject.simps) simp
      with l03 show ?thesis by simp
    next
      case False
      with a k sk1 col v l2 sk2 have com: "e = 0x2C"
        by (subst (asm) JSONObject.simps) (auto split: if_splits)
      with a k sk1 col v l2 sk2 False obtain k' r4 where sk3: "skip_ws r3 = k' # r4"
        by (subst (asm) JSONObject.simps) (auto split: list.splits)
      from skip_ws_Cons_less [OF sk3] have l4: "length r4 < length r3" .
      from a k sk1 col v l2 sk2 False com sk3 have quo: "k' = 0x22"
        by (subst (asm) JSONObject.simps) (auto split: if_splits)
      with a k sk1 col v l2 sk2 False com sk3 obtain ps' where
        rec: "JSONObject py d r4 = Inr (ps', r)"
        by (subst (asm) JSONObject.simps) (auto split: sum.splits)
      from 4(2) [OF k _ sk1 col v _ l2 sk2 False com sk3 quo] rec
      have "length r < length r4" by simp
      with l4 l03 show ?thesis by simp
    qed
  qed
qed

lemma scan_once_shorter: "scan_once py d s = Inr (v, r) \<Longrightarrow> length r < length s"
  using scan_shorter_all(1) by blast

section \<open>The decoder only drops bytes\<close>

lemma div_mod_digits:
  fixes q r m :: nat
  assumes "r < m"
  shows "(q * m + r) div m = q" and "(q * m + r) mod m = r"
  using assms by simp_all

lemma enc2:
  assumes "0xC2 \<le> ch" "ch < 0xE0" "is_continuation ch2"
  shows "utf8_encode_char (join2 ch ch2) = [ch, ch2]"
proof -
  define a b where "a = ch - 0xC0" and "b = ch2 - 0x80"
  with assms have ab: "ch = 0xC0 + a" "ch2 = 0x80 + b" "b < 64" "2 \<le> a" "a < 32"
    by (auto simp: is_continuation_def)
  then show ?thesis
    by (simp add: utf8_encode_char_def join2_def)
qed

lemma enc3:
  assumes "0xE0 \<le> ch" "ch < 0xF0" "is_continuation ch2" "is_continuation ch3"
    and "ch = 0xE0 \<longrightarrow> 0xA0 \<le> ch2"
  shows "utf8_encode_char (join3 ch ch2 ch3) = [ch, ch2, ch3]"
proof -
  define a b c where "a = ch - 0xE0" and "b = ch2 - 0x80" and "c = ch3 - 0x80"
  with assms have ab: "ch = 0xE0 + a" "ch2 = 0x80 + b" "ch3 = 0x80 + c"
      "b < 64" "c < 64" "a < 16"
    by (auto simp: is_continuation_def)
  from assms(5) ab have big: "1 \<le> a \<or> 32 \<le> b"
    by (cases "a = 0") simp_all
  define v where "v = a * 4096 + b * 64 + c"
  have val: "join3 ch ch2 ch3 = v"
    by (simp add: ab v_def join3_def)
  have lo: "0x800 \<le> v" using big ab by (auto simp: v_def)
  have hi: "v < 0x10000" using ab by (simp add: v_def)
  have v64: "v = (a * 64 + b) * 64 + c" by (simp add: v_def)
  have d3: "v mod 64 = c"
    unfolding v64 using ab by (simp only: div_mod_digits)
  have "v div 64 = a * 64 + b"
    unfolding v64 using ab by (simp only: div_mod_digits)
  then have d2: "v div 64 mod 64 = b"
    using ab by (simp only: div_mod_digits)
  have "v = a * 4096 + (b * 64 + c)" by (simp add: v_def)
  moreover have "b * 64 + c < 4096" using ab by simp
  ultimately have d1: "v div 4096 = a" by (simp only: div_mod_digits)
  show ?thesis
    unfolding val using lo hi
    by (simp add: utf8_encode_char_def d1 d2 d3 ab)
qed

lemma enc4:
  assumes "0xF0 \<le> ch" "ch < 0xF5" "is_continuation ch2" "is_continuation ch3"
    "is_continuation ch4"
    and "ch = 0xF0 \<longrightarrow> 0x90 \<le> ch2"
  shows "utf8_encode_char (join4 ch ch2 ch3 ch4) = [ch, ch2, ch3, ch4]"
proof -
  define a b c d where "a = ch - 0xF0" and "b = ch2 - 0x80" and "c = ch3 - 0x80"
    and "d = ch4 - 0x80"
  with assms have ab: "ch = 0xF0 + a" "ch2 = 0x80 + b" "ch3 = 0x80 + c" "ch4 = 0x80 + d"
      "b < 64" "c < 64" "d < 64" "a < 5"
    by (auto simp: is_continuation_def)
  from assms(6) ab have big: "1 \<le> a \<or> 16 \<le> b"
    by (cases "a = 0") simp_all
  define v where "v = a * 262144 + b * 4096 + c * 64 + d"
  have val: "join4 ch ch2 ch3 ch4 = v"
    by (simp add: ab v_def join4_def)
  have lo: "0x10000 \<le> v" using big ab by (auto simp: v_def)
  have v64: "v = ((a * 64 + b) * 64 + c) * 64 + d" by (simp add: v_def)
  have d4: "v mod 64 = d"
    unfolding v64 using ab by (simp only: div_mod_digits)
  have "v div 64 = (a * 64 + b) * 64 + c"
    unfolding v64 using ab by (simp only: div_mod_digits)
  then have d3: "v div 64 mod 64 = c"
    using ab by (simp only: div_mod_digits)
  have "v = (a * 64 + b) * 4096 + (c * 64 + d)" by (simp add: v_def)
  moreover have "c * 64 + d < 4096" using ab by simp
  ultimately have "v div 4096 = a * 64 + b" by (simp only: div_mod_digits)
  then have d2: "v div 4096 mod 64 = b" using ab by (simp only: div_mod_digits)
  have "v = a * 262144 + (b * 4096 + c * 64 + d)" by (simp add: v_def)
  moreover have "b * 4096 + c * 64 + d < 262144" using ab by simp
  ultimately have d1: "v div 262144 = a" by (simp only: div_mod_digits)
  show ?thesis
    unfolding val using lo
    by (simp add: utf8_encode_char_def d1 d2 d3 d4 ab)
qed

lemma utf8_step_encode:
  assumes "utf8_step ch s = (Some c, n)"
  shows "utf8_encode_char c = take n (ch # s)"
proof -
  consider (a) "ch < 0x80" | (b) "0x80 \<le> ch" "ch < 0xC2" | (c) "0xC2 \<le> ch" "ch < 0xE0"
    | (d) "0xE0 \<le> ch" "ch < 0xF0" | (e) "0xF0 \<le> ch" "ch < 0xF5" | (f) "0xF5 \<le> ch"
    by linarith
  then show ?thesis
  proof cases
    case a
    with assms show ?thesis
      by (auto simp: utf8_step_def utf8_encode_char_def)
  next
    case b
    with assms show ?thesis
      by (simp add: utf8_step_def)
  next
    case c
    with assms show ?thesis
      by (auto simp: utf8_step_def enc2 split: list.splits if_splits)
  next
    case d
    then have r: "\<not> ch < 0x80" "\<not> ch < 0xC2" "\<not> ch < 0xE0" by simp_all
    from assms d r show ?thesis
      by (auto simp: utf8_step_def enc3 split: list.splits if_splits)
  next
    case e
    then have r: "\<not> ch < 0x80" "\<not> ch < 0xC2" "\<not> ch < 0xE0" "\<not> ch < 0xF0" by simp_all
    from assms e r show ?thesis
      by (auto simp: utf8_step_def enc4 split: list.splits if_splits)
  next
    case f
    with assms show ?thesis
      by (simp add: utf8_step_def)
  qed
qed

lemma subseq_drop: "subseq (drop n xs) xs"
  by (metis append_take_drop_id list_emb_append2 subseq_order.order_refl)

lemma utf8_decode_drops_only: "subseq (utf8_encode (utf8_decode_ignore bs)) bs"
proof (induction bs rule: utf8_decode_ignore.induct)
  case 1
  show ?case by (simp add: utf8_encode_def utf8_decode_ignore.simps)
next
  case (2 ch s)
  obtain r n where step: "utf8_step ch s = (r, n)"
    by (cases "utf8_step ch s")
  show ?case
  proof (cases r)
    case None
    with step 2(1) have "subseq (utf8_encode (utf8_decode_ignore (drop n (ch # s))))
        (drop n (ch # s))"
      by simp
    then have "subseq (utf8_encode (utf8_decode_ignore (drop n (ch # s)))) (ch # s)"
      using subseq_drop subseq_order.trans by blast
    with step None show ?thesis
      by (simp add: utf8_decode_ignore.simps)
  next
    case (Some c)
    with step 2(2) have ih: "subseq (utf8_encode (utf8_decode_ignore (drop n (ch # s))))
        (drop n (ch # s))"
      by simp
    from step Some have enc: "utf8_encode_char c = take n (ch # s)"
      by (simp add: utf8_step_encode)
    have "subseq (take n (ch # s) @ utf8_encode (utf8_decode_ignore (drop n (ch # s))))
        (take n (ch # s) @ drop n (ch # s))"
      using ih by (simp only: subseq_append')
    then have "subseq (utf8_encode_char c @ utf8_encode (utf8_decode_ignore (drop n (ch # s))))
        (ch # s)"
      by (simp only: enc append_take_drop_id)
    with step Some show ?thesis
      by (simp add: utf8_decode_ignore.simps utf8_encode_def)
  qed
qed

lemma recompose3:
  fixes c d e cm dm :: nat
  assumes "c = d * 64 + cm" and "d = e * 64 + dm"
  shows "e * 4096 + dm * 64 + cm = c"
  using assms by simp

lemma recompose4:
  fixes c d e f cm dm em :: nat
  assumes "c = d * 64 + cm" and "d = e * 64 + dm" and "e = f * 64 + em"
  shows "f * 262144 + em * 4096 + dm * 64 + cm = c"
  using assms by simp

lemma digits3: "(c::nat) div 4096 * 4096 + c div 64 mod 64 * 64 + c mod 64 = c"
proof -
  have "c div 4096 = c div 64 div 64"
    by (simp add: div_mult2_eq [symmetric])
  moreover have "c = c div 64 * 64 + c mod 64" by simp
  moreover have "c div 64 = c div 64 div 64 * 64 + c div 64 mod 64" by simp
  ultimately show ?thesis
    using recompose3 [of c "c div 64" "c mod 64" "c div 64 div 64" "c div 64 mod 64"]
    by simp
qed

lemma digits4: "(c::nat) div 262144 * 262144 + c div 4096 mod 64 * 4096 + c div 64 mod 64 * 64
    + c mod 64 = c"
proof -
  have a: "c div 4096 = c div 64 div 64"
    by (simp add: div_mult2_eq [symmetric])
  have b: "c div 262144 = c div 64 div 64 div 64"
    by (simp add: div_mult2_eq [symmetric])
  have "c = c div 64 * 64 + c mod 64" by simp
  moreover have "c div 64 = c div 64 div 64 * 64 + c div 64 mod 64" by simp
  moreover have "c div 64 div 64 = c div 64 div 64 div 64 * 64 + c div 64 div 64 mod 64"
    by simp
  ultimately show ?thesis
    using recompose4 [of c "c div 64" "c mod 64" "c div 64 div 64" "c div 64 mod 64"
        "c div 64 div 64 div 64" "c div 64 div 64 mod 64"]
    by (simp only: a b)
qed

lemma join2_encode:
  assumes "0x80 \<le> c" "c < 0x800"
  shows "join2 (0xC0 + c div 64) (0x80 + c mod 64) = c"
  by (simp add: join2_def)

lemma join3_encode:
  "join3 (0xE0 + c div 4096) (0x80 + c div 64 mod 64) (0x80 + c mod 64) = c"
proof -
  have "join3 (0xE0 + c div 4096) (0x80 + c div 64 mod 64) (0x80 + c mod 64)
      = c div 4096 * 4096 + c div 64 mod 64 * 64 + c mod 64"
    by (simp add: join3_def)
  then show ?thesis by (simp only: digits3)
qed

lemma join4_encode:
  "join4 (0xF0 + c div 262144) (0x80 + c div 4096 mod 64) (0x80 + c div 64 mod 64)
     (0x80 + c mod 64) = c"
proof -
  have "join4 (0xF0 + c div 262144) (0x80 + c div 4096 mod 64) (0x80 + c div 64 mod 64)
     (0x80 + c mod 64)
      = c div 262144 * 262144 + c div 4096 mod 64 * 4096 + c div 64 mod 64 * 64 + c mod 64"
    by (simp add: join4_def)
  then show ?thesis by (simp only: digits4)
qed

lemma second_byte_E0: "c div 4096 = 0 \<Longrightarrow> 0x800 \<le> (c::nat) \<Longrightarrow> 32 \<le> c div 64 mod 64"
proof -
  assume a: "c div 4096 = 0" and b: "0x800 \<le> c"
  from a have "c < 4096" by (simp add: div_eq_0_iff)
  then have "c div 64 < 64" by simp
  then have "c div 64 mod 64 = c div 64" by simp
  moreover from b have "32 \<le> c div 64" by simp
  ultimately show ?thesis by simp
qed

lemma second_byte_ED: "c div 4096 = 13 \<Longrightarrow> (c::nat) < 0xD800 \<Longrightarrow> c div 64 mod 64 < 32"
proof -
  assume a: "c div 4096 = 13" and b: "c < 0xD800"
  have "c div 64 div 64 = 13" using a by (simp add: div_mult2_eq [symmetric])
  then have "c div 64 = 13 * 64 + c div 64 mod 64"
    using div_mult_mod_eq [of "c div 64" 64] by simp
  moreover from b have "c div 64 < 864" by simp
  ultimately show ?thesis by linarith
qed

lemma second_byte_F0: "c div 262144 = 0 \<Longrightarrow> 0x10000 \<le> (c::nat) \<Longrightarrow> 16 \<le> c div 4096 mod 64"
proof -
  assume a: "c div 262144 = 0" and b: "0x10000 \<le> c"
  from a have "c < 262144" by (simp add: div_eq_0_iff)
  then have "c div 4096 < 64" by simp
  then have "c div 4096 mod 64 = c div 4096" by simp
  moreover from b have "16 \<le> c div 4096" by simp
  ultimately show ?thesis by simp
qed

lemma second_byte_F4: "c div 262144 = 4 \<Longrightarrow> (c::nat) < 0x110000 \<Longrightarrow> c div 4096 mod 64 < 16"
proof -
  assume a: "c div 262144 = 4" and b: "c < 0x110000"
  have "c div 4096 div 64 = 4" using a by (simp add: div_mult2_eq [symmetric])
  then have "c div 4096 = 4 * 64 + c div 4096 mod 64"
    using div_mult_mod_eq [of "c div 4096" 64] by simp
  moreover from b have "c div 4096 < 272" by simp
  ultimately show ?thesis by linarith
qed

lemma lead_ED_below_E000: "0x800 \<le> (c::nat) \<Longrightarrow> c < 0x10000 \<Longrightarrow> c div 4096 = 13 \<Longrightarrow> 0xE000 \<le> c \<Longrightarrow> False"
proof -
  assume "c div 4096 = 13" "0xE000 \<le> c"
  then have "14 \<le> c div 4096" by simp
  with \<open>c div 4096 = 13\<close> show False by simp
qed

lemma utf8_step_of_encode:
  assumes "is_scalar_value c"
  shows "\<exists>ch s. utf8_encode_char c = ch # s
           \<and> utf8_step ch (s @ rest) = (Some c, Suc (length s))"
proof -
  consider (a) "c < 0x80" | (b) "0x80 \<le> c" "c < 0x800" | (c) "0x800 \<le> c" "c < 0x10000"
    | (d) "0x10000 \<le> c" "c < 0x110000"
    using assms unfolding is_scalar_value_def by linarith
  then show ?thesis
  proof cases
    case a
    then show ?thesis
      by (simp add: utf8_encode_char_def utf8_step_def)
  next
    case b
    then have "c div 64 < 32" "2 \<le> c div 64" by simp_all
    with b show ?thesis
      by (simp add: utf8_encode_char_def utf8_step_def is_continuation_def join2_encode)
  next
    case c
    then have r: "c div 4096 < 16" by simp
    have e0: "c div 4096 = 0 \<Longrightarrow> 32 \<le> c div 64 mod 64"
      using c second_byte_E0 by simp
    have ed: "c div 4096 = 13 \<Longrightarrow> c div 64 mod 64 < 32"
    proof -
      assume h: "c div 4096 = 13"
      with c have "c < 0xE000" using lead_ED_below_E000 [of c] by fastforce
      with assms have "c < 0xD800" by (simp add: is_scalar_value_def)
      with h show ?thesis by (rule second_byte_ED)
    qed
    from c r e0 ed show ?thesis
      by (simp add: utf8_encode_char_def utf8_step_def is_continuation_def join3_encode)
  next
    case d
    then have r: "c div 262144 < 5" by simp
    have f0: "c div 262144 = 0 \<Longrightarrow> 16 \<le> c div 4096 mod 64"
      using d second_byte_F0 by simp
    have second_F4: "c div 262144 = 4 \<Longrightarrow> c div 4096 mod 64 < 16"
      using d second_byte_F4 by simp
    from d r f0 second_F4 show ?thesis
      by (simp add: utf8_encode_char_def utf8_step_def is_continuation_def join4_encode)
  qed
qed

lemma utf8_decode_encode:
  assumes "\<forall>c\<in>set s. is_scalar_value c"
  shows "utf8_decode_ignore (utf8_encode s @ rest) = s @ utf8_decode_ignore rest"
  using assms
proof (induction s)
  case Nil
  show ?case by (simp add: utf8_encode_def)
next
  case (Cons c s)
  then have "is_scalar_value c" by simp
  from utf8_step_of_encode [OF this, of "utf8_encode s @ rest"]
  obtain ch t where enc: "utf8_encode_char c = ch # t"
    and step: "utf8_step ch (t @ utf8_encode s @ rest) = (Some c, Suc (length t))"
    by blast
  have "utf8_decode_ignore (utf8_encode (c # s) @ rest)
      = utf8_decode_ignore (ch # t @ utf8_encode s @ rest)"
    by (simp add: utf8_encode_def enc)
  also have "\<dots> = c # utf8_decode_ignore (utf8_encode s @ rest)"
    by (simp add: utf8_decode_ignore.simps step)
  also have "\<dots> = (c # s) @ utf8_decode_ignore rest"
    using Cons by simp
  finally show ?case .
qed

lemma utf8_encode_char_head:
  "\<exists>ch t. utf8_encode_char c = ch # t \<and> \<not> is_continuation ch"
  by (simp add: utf8_encode_char_def is_continuation_def)

lemma utf8_encode_head:
  "utf8_encode s = [] \<or> (\<exists>ch t. utf8_encode s = ch # t \<and> \<not> is_continuation ch)"
proof (cases s)
  case Nil
  then show ?thesis by (simp add: utf8_encode_def)
next
  case (Cons c cs)
  from utf8_encode_char_head [of c] obtain ch t
    where "utf8_encode_char c = ch # t" "\<not> is_continuation ch"
    by blast
  with Cons show ?thesis by (simp add: utf8_encode_def)
qed

lemma utf8_step_stray:
  assumes "0x80 \<le> x" and "s = [] \<or> (\<exists>ch t. s = ch # t \<and> \<not> is_continuation ch)"
  shows "utf8_step x s = (None, 1)"
  using assms by (auto simp: utf8_step_def)

lemma utf8_decode_stray:
  assumes "0x80 \<le> x"
  shows "utf8_decode_ignore (x # utf8_encode s) = utf8_decode_ignore (utf8_encode s)"
  using utf8_step_stray [OF assms utf8_encode_head [of s]]
  by (simp add: utf8_decode_ignore.simps)

lemma utf8_decode_encode_plain:
  assumes "\<forall>c\<in>set s. is_scalar_value c"
  shows "utf8_decode_ignore (utf8_encode s) = s"
  using utf8_decode_encode [OF assms, of "[]"] by (simp add: utf8_decode_ignore.simps)

lemma utf8_decode_interleaved:
  assumes "\<forall>c\<in>set a. is_scalar_value c" and "\<forall>c\<in>set b. is_scalar_value c"
    and "length junk \<le> 1" and "\<forall>x\<in>set junk. 0x80 \<le> x"
  shows "utf8_decode_ignore (utf8_encode a @ junk @ utf8_encode b) = a @ b"
proof (cases junk)
  case Nil
  then show ?thesis
    by (simp add: utf8_decode_encode [OF assms(1)] utf8_decode_encode_plain [OF assms(2)])
next
  case (Cons x xs)
  with assms(3,4) have "xs = []" "0x80 \<le> x" by simp_all
  with Cons show ?thesis
    by (simp add: utf8_decode_encode [OF assms(1)] utf8_decode_stray
        utf8_decode_encode_plain [OF assms(2)])
qed

section \<open>What the decoder keeps and what it drops\<close>

text \<open>
  Three equations fix the decoder on every input: the empty input gives the empty text;
  the encoding of a scalar value at the front is kept as that character, whatever
  follows; a byte at which no encoding of a scalar value starts is dropped. The decoded
  text never holds a surrogate.
\<close>

lemma utf8_step_scalar:
  assumes "utf8_step ch s = (Some c, n)"
  shows "is_scalar_value c"
proof -
  consider (a) "ch < 0x80" | (b) "0x80 \<le> ch" "ch < 0xC2" | (c) "0xC2 \<le> ch" "ch < 0xE0"
    | (d) "0xE0 \<le> ch" "ch < 0xF0" | (e) "0xF0 \<le> ch" "ch < 0xF5" | (f) "0xF5 \<le> ch"
    by linarith
  then show ?thesis
  proof cases
    case a
    with assms show ?thesis
      by (auto simp: utf8_step_def is_scalar_value_def)
  next
    case b
    with assms show ?thesis
      by (simp add: utf8_step_def)
  next
    case c
    with assms show ?thesis
      by (auto simp: utf8_step_def is_scalar_value_def join2_def is_continuation_def
          split: list.splits if_splits)
  next
    case d
    then have r: "\<not> ch < 0x80" "\<not> ch < 0xC2" "\<not> ch < 0xE0" by simp_all
    from assms d r obtain ch2 ch3 where v: "c = join3 ch ch2 ch3"
      and k: "is_continuation ch2" "is_continuation ch3"
      and ed: "ch = 0xED \<longrightarrow> ch2 < 0xA0"
      by (auto simp: utf8_step_def split: list.splits if_splits)
    consider "ch < 0xED" | "ch = 0xED" | "0xED < ch" by linarith
    then show ?thesis
    proof cases
      case 1
      with d k show ?thesis
        by (simp add: v is_scalar_value_def join3_def is_continuation_def; linarith)
    next
      case 2
      with d k ed show ?thesis
        by (simp add: v is_scalar_value_def join3_def is_continuation_def; linarith)
    next
      case 3
      with d k show ?thesis
        by (simp add: v is_scalar_value_def join3_def is_continuation_def; linarith)
    qed
  next
    case e
    then have r: "\<not> ch < 0x80" "\<not> ch < 0xC2" "\<not> ch < 0xE0" "\<not> ch < 0xF0" by simp_all
    from assms e r obtain ch2 ch3 ch4 where v: "c = join4 ch ch2 ch3 ch4"
      and k: "is_continuation ch2" "is_continuation ch3" "is_continuation ch4"
      and f0: "ch = 0xF0 \<longrightarrow> 0x90 \<le> ch2"
      and f4: "ch = 0xF4 \<longrightarrow> ch2 < 0x90"
      by (auto simp: utf8_step_def split: list.splits if_splits)
    consider "ch = 0xF0" | "0xF0 < ch" "ch < 0xF4" | "ch = 0xF4" using e by linarith
    then show ?thesis
    proof cases
      case 1
      with k f0 show ?thesis
        by (simp add: v is_scalar_value_def join4_def is_continuation_def; linarith)
    next
      case 2
      with k show ?thesis
        by (simp add: v is_scalar_value_def join4_def is_continuation_def; linarith)
    next
      case 3
      with k f4 show ?thesis
        by (simp add: v is_scalar_value_def join4_def is_continuation_def; linarith)
    qed
  next
    case f
    with assms show ?thesis
      by (simp add: utf8_step_def)
  qed
qed

lemma utf8_decode_scalars: "list_all is_scalar_value (utf8_decode_ignore bs)"
proof (induction bs rule: utf8_decode_ignore.induct)
  case 1
  show ?case by (simp add: utf8_decode_ignore.simps)
next
  case (2 ch s)
  obtain r n where step: "utf8_step ch s = (r, n)"
    by (cases "utf8_step ch s")
  show ?case
  proof (cases r)
    case None
    with step 2(1) show ?thesis
      by (simp add: utf8_decode_ignore.simps)
  next
    case (Some c)
    with step utf8_step_scalar have "is_scalar_value c" by blast
    with step Some 2(2) show ?thesis
      by (simp add: utf8_decode_ignore.simps)
  qed
qed

lemma utf8_decode_keeps:
  assumes "is_scalar_value c"
  shows "utf8_decode_ignore (utf8_encode_char c @ rest) = c # utf8_decode_ignore rest"
  using utf8_decode_encode [of "[c]" rest] assms by (simp add: utf8_encode_def)

lemma utf8_step_None:
  assumes "utf8_step ch s = (None, n)"
  shows "0 < n \<and> n \<le> Suc (length s) \<and> (\<forall>x\<in>set (take (n - 1) s). is_continuation x)"
  using assms by (auto simp: utf8_step_def split: if_splits list.splits)

lemma utf8_decode_skips_continuation:
  assumes "\<forall>x\<in>set p. is_continuation x"
  shows "utf8_decode_ignore (p @ r) = utf8_decode_ignore r"
  using assms
proof (induction p)
  case Nil
  show ?case by simp
next
  case (Cons x p)
  then have "utf8_step x (p @ r) = (None, 1)"
    by (simp add: utf8_step_def is_continuation_def)
  with Cons show ?case
    by (simp add: utf8_decode_ignore.simps)
qed

lemma utf8_decode_drops:
  assumes "\<forall>c. is_scalar_value c \<longrightarrow> \<not> prefix (utf8_encode_char c) (b # bs)"
  shows "utf8_decode_ignore (b # bs) = utf8_decode_ignore bs"
proof -
  obtain r n where step: "utf8_step b bs = (r, n)"
    by (cases "utf8_step b bs")
  show ?thesis
  proof (cases r)
    case (Some c)
    with step have "utf8_encode_char c = take n (b # bs)" and "is_scalar_value c"
      by (simp_all add: utf8_step_encode utf8_step_scalar)
    with assms show ?thesis
      by (metis take_is_prefix)
  next
    case None
    with step utf8_step_None have n: "0 < n"
      and k: "\<forall>x\<in>set (take (n - 1) bs). is_continuation x"
      by blast+
    from n have "drop n (b # bs) = drop (n - 1) bs"
      by (cases n) simp_all
    with step None have "utf8_decode_ignore (b # bs) = utf8_decode_ignore (drop (n - 1) bs)"
      by (simp add: utf8_decode_ignore.simps)
    also have "\<dots> = utf8_decode_ignore (take (n - 1) bs @ drop (n - 1) bs)"
      by (rule utf8_decode_skips_continuation [OF k, symmetric])
    finally show ?thesis by simp
  qed
qed

lemma utf8_decode_ascii:
  assumes "\<forall>x\<in>set s. x < 0x80"
  shows "utf8_decode_ignore (s @ rest) = s @ utf8_decode_ignore rest"
  using assms
proof (induction s)
  case Nil
  show ?case by simp
next
  case (Cons x s)
  then have "utf8_step x (s @ rest) = (Some x, 1)"
    by (simp add: utf8_step_def)
  with Cons show ?case
    by (simp add: utf8_decode_ignore.simps)
qed

lemma bytes_decode_ascii:
  assumes "\<forall>b\<in>set content. unat b < 0x80"
  shows "bytes_decode content = map unat content"
  using utf8_decode_ascii [of "map unat content" "[]"] assms
  by (simp add: bytes_decode_def utf8_decode_ignore.simps)

lemma try_body_text:
  assumes "status < 400 \<or> 600 \<le> status"
    and "json_loads py (bytes_decode content) = Inr (JObject pairs)"
    and "dict_get pairs (asc ''response'') (JString no_result_sentinel) = JString t"
  shows "try_body py (Response status content) = Inr (remove_unwanted (strip t))"
  using assms by (auto simp: try_body_def post_and_check_def extract_text_def)

lemma try_body_raises:
  assumes "status < 400 \<or> 600 \<le> status"
    and "json_loads py (bytes_decode content) = Inl e"
  shows "try_body py (Response status content) = Inl e"
  using assms by (auto simp: try_body_def post_and_check_def)

section \<open>The limits of the interpreter\<close>

text \<open>
  An integer with more digits than the limit raises \<open>ValueError\<close> as soon as it has been
  scanned, whatever follows it, and a nesting deeper than the depth available raises
  \<open>RecursionError\<close>, whatever follows the opening brackets.
\<close>

lemma scan_literal_long_integer:
  assumes "640 < n" and "0 < int_max_str_digits py" and "int_max_str_digits py < n"
    and "\<not> is_digit c" and "c \<noteq> 0x2E" and "c \<noteq> 0x45" and "c \<noteq> 0x65"
  shows "scan_literal py (replicate n 0x31 @ c # r) = Inl ValueError"
proof -
  from assms(1) obtain m where n: "n = Suc m" by (cases n) simp_all
  have tw: "takeWhile is_digit (replicate k 0x31 @ c # r) = replicate k 0x31" for k
    using assms(4) by (induction k) (auto simp: is_digit_def)
  have dw: "dropWhile is_digit (replicate k 0x31 @ c # r) = c # r" for k
    using assms(4) by (induction k) (auto simp: is_digit_def)
  have mi: "match_integer (replicate n 0x31 @ c # r) = Some (replicate n 0x31, c # r)"
    by (simp add: n match_integer_def is_digit_def tw dw)
  have mf: "match_frac (c # r) = ([], c # r)"
    using assms(5) by (simp add: match_frac_def split: list.splits)
  have me: "match_exp (c # r) = ([], c # r)"
    using assms(6,7) by (simp add: match_exp_def)
  have mn: "match_number (replicate n 0x31 @ c # r) = Some (replicate n 0x31, [], [], c # r)"
    by (simp add: match_number_def mi mf me)
  have "length (filter is_digit (replicate n (0x31::nat))) = n"
    by (simp add: is_digit_def)
  with assms(1,2,3) have long: "int_too_long py (replicate n 0x31)"
    by (simp add: int_too_long_def)
  have np: "\<not> prefix (asc ''null'') (replicate n 0x31 @ c # r)"
    "\<not> prefix (asc ''true'') (replicate n 0x31 @ c # r)"
    "\<not> prefix (asc ''false'') (replicate n 0x31 @ c # r)"
    by (simp_all add: n asc_def)
  show ?thesis
    by (simp add: scan_literal_def np mn long)
qed

lemma json_loads_long_integer:
  assumes "recursion_depth py \<noteq> 0"
    and "640 < n" and "0 < int_max_str_digits py" and "int_max_str_digits py < n"
    and "\<not> is_digit c" and "c \<noteq> 0x2E" and "c \<noteq> 0x45" and "c \<noteq> 0x65"
  shows "json_loads py ([0x7B, 0x22, 0x6E, 0x22, 0x3A, 0x20] @ replicate n 0x31 @ c # r)
           = Inl ValueError"
proof -
  from assms(2) obtain m where n: "n = Suc m" by (cases n) simp_all
  have lit: "scan_literal py (0x31 # replicate m 0x31 @ c # r) = Inl ValueError"
    using scan_literal_long_integer [OF assms(2-8), of r] by (simp add: n)
  have num: "scan_once py d (0x31 # replicate m 0x31 @ c # r) = Inl ValueError" for d
    by (simp add: scan_once.simps lit)
  have obj: "JSONObject py d ([0x6E, 0x22, 0x3A, 0x20] @ replicate n 0x31 @ c # r)
      = Inl ValueError" for d
    by (simp add: n JSONObject.simps scanstring.simps skip_ws_def is_ws_def num)
  show ?thesis
    using assms(1)
    by (simp add: json_loads_def scan_once.simps skip_ws_def is_ws_def obj [simplified])
qed

lemma scan_once_deep_nesting:
  "scan_once py d (replicate (Suc d) 0x5B @ r) = Inl RecursionError"
proof (induction d arbitrary: r)
  case 0
  show ?case by (simp add: scan_once.simps)
next
  case (Suc d)
  have "JSONArray py d (0x5B # replicate d 0x5B @ r) = Inl RecursionError"
    using Suc [of r] by (subst JSONArray.simps) simp
  then show ?case
    by (simp add: scan_once.simps skip_ws_def is_ws_def)
qed

lemma scan_once_deeper_nesting:
  assumes "d < n"
  shows "scan_once py d (replicate n 0x5B @ r) = Inl RecursionError"
proof -
  from assms have "replicate n (0x5B::nat) = replicate (Suc d) 0x5B @ replicate (n - Suc d) 0x5B"
    by (simp add: replicate_add [symmetric] del: replicate_Suc)
  then show ?thesis
    using scan_once_deep_nesting [of py d "replicate (n - Suc d) 0x5B @ r"]
    by (simp del: replicate_Suc)
qed

lemma json_loads_deep_nesting:
  assumes "recursion_depth py \<le> n"
  shows "json_loads py ([0x7B, 0x22, 0x61, 0x22, 0x3A, 0x20] @ replicate n 0x5B @ r)
           = Inl RecursionError"
proof (cases "recursion_depth py")
  case 0
  then show ?thesis
    by (simp add: json_loads_def scan_once.simps skip_ws_def is_ws_def)
next
  case (Suc d)
  with assms obtain m where n: "n = Suc m" "d \<le> m" by (cases n) simp_all
  from n have "d < n" by simp
  from scan_once_deeper_nesting [OF this, of py r]
  have arr: "scan_once py d (0x5B # replicate m 0x5B @ r) = Inl RecursionError"
    by (simp add: n)
  have obj: "JSONObject py d ([0x61, 0x22, 0x3A, 0x20] @ replicate n 0x5B @ r)
      = Inl RecursionError"
    by (simp add: n JSONObject.simps scanstring.simps skip_ws_def is_ws_def arr)
  show ?thesis
    by (simp add: json_loads_def Suc scan_once.simps skip_ws_def is_ws_def obj [simplified])
qed

section \<open>The exceptions of each step\<close>

text \<open>
  \<open>json.loads\<close> raises \<open>JSONDecodeError\<close>, \<open>ValueError\<close> or \<open>RecursionError\<close> and nothing
  else; the extraction of the text raises \<open>AttributeError\<close> and nothing else.
\<close>

lemma scan_literal_raises:
  "scan_literal py s = Inl e \<Longrightarrow> e = JSONDecodeError \<or> e = ValueError"
  by (auto simp: scan_literal_def split: if_splits option.splits)

lemma scan_raises_all:
  "(\<forall>e. scan_once py d s = Inl e
      \<longrightarrow> e = JSONDecodeError \<or> e = ValueError \<or> e = RecursionError)"
  "(\<forall>e. JSONArray py2 d2 s2 = Inl e
      \<longrightarrow> e = JSONDecodeError \<or> e = ValueError \<or> e = RecursionError)"
  "(\<forall>e. JSONObject py3 d3 s3 = Inl e
      \<longrightarrow> e = JSONDecodeError \<or> e = ValueError \<or> e = RecursionError)"
proof (induction py d s and py2 d2 s2 and py3 d3 s3
    rule: scan_once_JSONArray_JSONObject.induct)
  case (1 py d)
  show ?case by (simp add: scan_once.simps)
next
  case (2 py d c s)
  show ?case
  proof (intro allI impI)
    fix e assume a: "scan_once py d (c # s) = Inl e"
    consider (str) "c = 0x22" | (obj) "c = 0x7B" | (arr) "c = 0x5B"
      | (lit) "c \<noteq> 0x22" "c \<noteq> 0x7B" "c \<noteq> 0x5B"
      by blast
    then show "e = JSONDecodeError \<or> e = ValueError \<or> e = RecursionError"
    proof cases
      case str
      with a show ?thesis
        by (auto simp: scan_once.simps split: option.splits)
    next
      case obj
      show ?thesis
      proof (cases "d = 0")
        case True
        with a obj show ?thesis by (simp add: scan_once.simps)
      next
        case d: False
        show ?thesis
        proof (cases "skip_ws s")
          case Nil
          with a obj d show ?thesis by (simp add: scan_once.simps)
        next
          case (Cons q r0)
          show ?thesis
          proof (cases "q = 0x7D \<or> q \<noteq> 0x22")
            case True
            with a obj d Cons show ?thesis
              by (auto simp: scan_once.simps split: if_splits)
          next
            case False
            then have q: "q \<noteq> 0x7D" "q = 0x22" by simp_all
            with a obj d Cons have "JSONObject py (d - 1) r0 = Inl e"
              by (auto simp: scan_once.simps split: sum.splits)
            with 2(1) [OF _ _ d Cons q] obj show ?thesis by simp
          qed
        qed
      qed
    next
      case arr
      show ?thesis
      proof (cases "d = 0")
        case True
        with a arr show ?thesis by (simp add: scan_once.simps)
      next
        case d: False
        show ?thesis
        proof (cases "skip_ws s")
          case Nil
          with a arr d show ?thesis by (simp add: scan_once.simps)
        next
          case (Cons q r0)
          show ?thesis
          proof (cases "q = 0x5D")
            case True
            with a arr d Cons show ?thesis
              by (auto simp: scan_once.simps split: if_splits)
          next
            case False
            with a arr d Cons have "JSONArray py (d - 1) (q # r0) = Inl e"
              by (auto simp: scan_once.simps split: sum.splits)
            with 2(2) [OF _ _ _ d Cons False] arr show ?thesis by simp
          qed
        qed
      qed
    next
      case lit
      with a have "scan_literal py (c # s) = Inl e"
        by (simp add: scan_once.simps)
      from scan_literal_raises [OF this] show ?thesis by blast
    qed
  qed
next
  case (3 py d s)
  show ?case
  proof (intro allI impI)
    fix e assume a: "JSONArray py d s = Inl e"
    show "e = JSONDecodeError \<or> e = ValueError \<or> e = RecursionError"
    proof (cases "scan_once py d s")
      case (Inl e')
      with a have "e' = e" by (subst (asm) JSONArray.simps) simp
      with Inl 3(1) show ?thesis by simp
    next
      case (Inr x)
      obtain v r0 where x: "x = (v, r0)" by (cases x)
      show ?thesis
      proof (cases "length r0 < length s")
        case False
        with a Inr x show ?thesis by (subst (asm) JSONArray.simps) simp
      next
        case l0: True
        show ?thesis
        proof (cases "skip_ws r0")
          case Nil
          with a Inr x l0 show ?thesis by (subst (asm) JSONArray.simps) simp
        next
          case (Cons q r1)
          show ?thesis
          proof (cases "q = 0x5D \<or> q \<noteq> 0x2C")
            case True
            with a Inr x l0 Cons show ?thesis
              by (subst (asm) JSONArray.simps) (auto split: if_splits)
          next
            case False
            then have q: "q \<noteq> 0x5D" "q = 0x2C" by simp_all
            with a Inr x l0 Cons have "JSONArray py d (skip_ws r1) = Inl e"
              by (subst (asm) JSONArray.simps) (auto split: sum.splits)
            with 3(2) [OF Inr [unfolded x] _ l0 Cons q] show ?thesis by simp
          qed
        qed
      qed
    qed
  qed
next
  case (4 py d s)
  show ?case
  proof (intro allI impI)
    fix e assume a: "JSONObject py d s = Inl e"
    show "e = JSONDecodeError \<or> e = ValueError \<or> e = RecursionError"
    proof (cases "scanstring s")
      case None
      with a show ?thesis by (subst (asm) JSONObject.simps) simp
    next
      case (Some y)
      obtain key r0 where y: "y = (key, r0)" by (cases y)
      note k = Some [unfolded y]
      show ?thesis
      proof (cases "skip_ws r0")
        case Nil
        with a k show ?thesis by (subst (asm) JSONObject.simps) simp
      next
        case sk1: (Cons q r1)
        show ?thesis
        proof (cases "q = 0x3A")
          case False
          with a k sk1 show ?thesis by (subst (asm) JSONObject.simps) simp
        next
          case col: True
          show ?thesis
          proof (cases "scan_once py d (skip_ws r1)")
            case (Inl e')
            with a k sk1 col have "e' = e" by (subst (asm) JSONObject.simps) simp
            with Inl 4(1) [OF k _ sk1 col] show ?thesis by simp
          next
            case (Inr x)
            obtain v r2 where x: "x = (v, r2)" by (cases x)
            note v = Inr [unfolded x]
            show ?thesis
            proof (cases "length r2 < length (skip_ws r1)")
              case False
              with a k sk1 col v show ?thesis by (subst (asm) JSONObject.simps) simp
            next
              case l2: True
              show ?thesis
              proof (cases "skip_ws r2")
                case Nil
                with a k sk1 col v l2 show ?thesis by (subst (asm) JSONObject.simps) simp
              next
                case sk2: (Cons c r3)
                show ?thesis
                proof (cases "c = 0x7D \<or> c \<noteq> 0x2C")
                  case True
                  with a k sk1 col v l2 sk2 show ?thesis
                    by (subst (asm) JSONObject.simps) (auto split: if_splits)
                next
                  case False
                  then have c: "c \<noteq> 0x7D" "c = 0x2C" by simp_all
                  show ?thesis
                  proof (cases "skip_ws r3")
                    case Nil
                    with a k sk1 col v l2 sk2 c show ?thesis
                      by (subst (asm) JSONObject.simps) simp
                  next
                    case sk3: (Cons k' r4)
                    show ?thesis
                    proof (cases "k' = 0x22")
                      case False
                      with a k sk1 col v l2 sk2 c sk3 show ?thesis
                        by (subst (asm) JSONObject.simps) simp
                    next
                      case quo: True
                      with a k sk1 col v l2 sk2 c sk3 have "JSONObject py d r4 = Inl e"
                        by (subst (asm) JSONObject.simps) (auto split: sum.splits)
                      with 4(2) [OF k _ sk1 col v _ l2 sk2 c sk3 quo] show ?thesis by simp
                    qed
                  qed
                qed
              qed
            qed
          qed
        qed
      qed
    qed
  qed
qed

lemma json_loads_raises:
  "json_loads py s = Inl e \<Longrightarrow> e = JSONDecodeError \<or> e = ValueError \<or> e = RecursionError"
  using scan_raises_all(1) [of py "recursion_depth py" "skip_ws s"]
  by (auto simp: json_loads_def split: if_splits sum.splits)




section \<open>Calls that return and calls that raise\<close>

text \<open>
  An exception of \<open>json.loads\<close> other than \<open>JSONDecodeError\<close> leaves the function: the
  handlers of lines 63 to 67 do not name it.
\<close>

lemma translate_raises:
  assumes "status < 400 \<or> 600 \<le> status"
    and "json_loads py (bytes_decode content) = Inl e"
    and "e \<noteq> JSONDecodeError"
  shows "translate_text_with_ollama py (fixed_endpoint (Response status content))
           text model_name
         = ([build_request text model_name], Inl e)"
proof -
  from json_loads_raises [OF assms(2)] assms(3) have "e = ValueError \<or> e = RecursionError"
    by simp
  moreover have "try_body py (Response status content) = Inl e"
    using assms(1,2) by (rule try_body_raises)
  ultimately show ?thesis
    by (auto simp: translate_text_with_ollama_def Let_def fixed_endpoint_def handle_def)
qed

text \<open>
  When the status is not an error status and \<open>json.loads\<close> returns an object without the
  key \<open>response\<close>, the result is a Success whose text is the sentinel of line 54, and
  \<open>is_translation_error\<close> is false of the sentinel.
\<close>

lemma missing_field_gives_sentinel:
  assumes "endpoint (build_request text model_name) = Response status content"
    and "status < 400 \<or> 600 \<le> status"
    and "json_loads py (bytes_decode content) = Inr (JObject pairs)"
    and "asc ''response'' \<notin> fst ` set pairs"
  shows "snd (translate_text_with_ollama py endpoint text model_name)
           = Inr (Success no_result_sentinel)
         \<and> \<not> is_translation_error no_result_sentinel"
proof -
  from assms(1,2) have "post_and_check (endpoint (build_request text model_name))
      = Inr content"
    by (auto simp: post_and_check_def)
  moreover from assms(4) have "extract_text (JObject pairs) = Inr (strip no_result_sentinel)"
    by (simp add: extract_text_def dict_get_absent)
  ultimately have "try_body py (endpoint (build_request text model_name))
      = Inr no_result_sentinel"
    using assms(3) by (simp add: try_body_def sentinel_clean)
  then show ?thesis
    by (simp add: translate_text_with_ollama_def Let_def handle_def sentinel_no_marker)
qed

text \<open>
  The outcome of a call depends on the body only through the decoded text: the bytes
  that the decoder drops change nothing. The body made of the bytes that are left, the
  encoding of the decoded text, gives the same result.
\<close>

lemma unat_utf8_encode_char:
  assumes "is_scalar_value c"
  shows "map unat (map of_nat (utf8_encode_char c) :: byte list) = utf8_encode_char c"
proof -
  have small: "x < 256 \<Longrightarrow> unat (of_nat x :: byte) = x" for x
    by (simp add: unat_of_nat)
  have k128: "x < 64 \<Longrightarrow> unat (128 + of_nat x :: byte) = 128 + x" for x
    using small [of "128 + x"] by simp
  have k192: "x < 32 \<Longrightarrow> unat (192 + of_nat x :: byte) = 192 + x" for x
    using small [of "192 + x"] by simp
  have k224: "x < 16 \<Longrightarrow> unat (224 + of_nat x :: byte) = 224 + x" for x
    using small [of "224 + x"] by simp
  have k240: "x < 5 \<Longrightarrow> unat (240 + of_nat x :: byte) = 240 + x" for x
    using small [of "240 + x"] by simp
  from assms have bound: "c < 0x110000" by (auto simp: is_scalar_value_def)
  consider (a) "c < 0x80" | (b) "0x80 \<le> c" "c < 0x800" | (c) "0x800 \<le> c" "c < 0x10000"
    | (d) "0x10000 \<le> c" "c < 0x110000"
    using bound by linarith
  then show ?thesis
  proof cases
    case a
    then show ?thesis by (simp add: utf8_encode_char_def small)
  next
    case b
    then have "c div 64 < 32" by simp
    with b show ?thesis by (simp add: utf8_encode_char_def k128 k192)
  next
    case c
    then have "c div 4096 < 16" by simp
    with c show ?thesis by (simp add: utf8_encode_char_def k128 k224)
  next
    case d
    then have "c div 262144 < 5" by simp
    with d show ?thesis by (simp add: utf8_encode_char_def k128 k240)
  qed
qed

lemma unat_utf8_encode:
  assumes "list_all is_scalar_value s"
  shows "map unat (map of_nat (utf8_encode s) :: byte list) = utf8_encode s"
  using assms
proof (induction s)
  case Nil
  show ?case by (simp add: utf8_encode_def)
next
  case (Cons c s)
  then have "map unat (map of_nat (utf8_encode s) :: byte list) = utf8_encode s"
    by simp
  moreover from Cons.prems
  have "map unat (map of_nat (utf8_encode_char c) :: byte list) = utf8_encode_char c"
    by (simp add: unat_utf8_encode_char del: map_map)
  ultimately show ?case
    by (simp add: utf8_encode_def)
qed

lemma bytes_decode_of_kept:
  "bytes_decode (map of_nat (utf8_encode (bytes_decode content))) = bytes_decode content"
proof -
  have sc: "list_all is_scalar_value (bytes_decode content)"
    by (simp add: bytes_decode_def utf8_decode_scalars)
  then have "\<forall>c\<in>set (bytes_decode content). is_scalar_value c"
    by (simp add: list_all_iff)
  from utf8_decode_encode_plain [OF this] unat_utf8_encode [OF sc] show ?thesis
    by (simp add: bytes_decode_def)
qed

lemma translate_of_kept:
  "translate_text_with_ollama py
     (fixed_endpoint (Response status (map of_nat (utf8_encode (bytes_decode content)))))
     text model_name
   = translate_text_with_ollama py (fixed_endpoint (Response status content)) text model_name"
  by (simp add: translate_text_with_ollama_def Let_def fixed_endpoint_def try_body_def
      post_and_check_def bytes_decode_of_kept)

section \<open>The loop only appends\<close>

lemma fst_translate:
  "fst (translate_text_with_ollama py endpoint text model_name)
     = [build_request text model_name]"
  by (simp add: translate_text_with_ollama_def Let_def)

lemma process_results_Cons_returned:
  assumes "snd (translate_text_with_ollama py (net i)
             (replace [0x0A] [0x20] (summary result)) model_name) = Inr res"
    and "encodable (output_content result (fill (returned res)))"
  shows "process_results py net fill model_name n i (result # results) st =
           process_results py net fill model_name n (i + 1) results
             (st\<lparr>sent := sent st
                     @ [build_request (replace [0x0A] [0x20] (summary result)) model_name],
                 written := written st @ [output_content result (fill (returned res))],
                 sleeps := (if i < n - 1 then sleeps st + 1 else sleeps st)\<rparr>)"
  using assms by (cases "i < n - 1") (simp_all add: Let_def fst_translate)

lemma process_results_Cons_raised:
  assumes "snd (translate_text_with_ollama py (net i)
             (replace [0x0A] [0x20] (summary result)) model_name) = Inl e"
  shows "process_results py net fill model_name n i (result # results) st =
           (Some e, st\<lparr>sent := sent st
               @ [build_request (replace [0x0A] [0x20] (summary result)) model_name]\<rparr>)"
  using assms by (simp add: Let_def fst_translate)

lemma process_results_Cons_unwritable:
  assumes "snd (translate_text_with_ollama py (net i)
             (replace [0x0A] [0x20] (summary result)) model_name) = Inr res"
    and "\<not> encodable (output_content result (fill (returned res)))"
  shows "process_results py net fill model_name n i (result # results) st =
           (Some UnicodeEncodeError, st\<lparr>sent := sent st
               @ [build_request (replace [0x0A] [0x20] (summary result)) model_name]\<rparr>)"
  using assms by (simp add: Let_def fst_translate)

lemma process_results_appends:
  "prefix (written st) (written (snd (process_results py net fill model_name n i results st)))
   \<and> prefix (sent st) (sent (snd (process_results py net fill model_name n i results st)))"
proof (induction results arbitrary: i st)
  case Nil
  show ?case by simp
next
  case (Cons result results)
  show ?case
  proof (cases "snd (translate_text_with_ollama py (net i)
                      (replace [0x0A] [0x20] (summary result)) model_name)")
    case (Inl e)
    then show ?thesis
      by (simp add: process_results_Cons_raised [where net = net and i = i, OF Inl]
          del: process_results.simps)
  next
    case (Inr res)
    show ?thesis
    proof (cases "encodable (output_content result (fill (returned res)))")
      case False
      show ?thesis
        by (simp add: process_results_Cons_unwritable [where net = net and i = i and fill = fill, OF Inr False]
            del: process_results.simps)
    next
      case True
      let ?st = "st\<lparr>sent := sent st
                     @ [build_request (replace [0x0A] [0x20] (summary result)) model_name],
                 written := written st @ [output_content result (fill (returned res))],
                 sleeps := (if i < n - 1 then sleeps st + 1 else sleeps st)\<rparr>"
      have "prefix (written st) (written ?st)" and "prefix (sent st) (sent ?st)"
        by simp_all
      with Cons.IH [where i = "i + 1" and st = ?st] show ?thesis
        unfolding process_results_Cons_returned [where net = net and i = i and fill = fill, OF Inr True]
        by (meson prefix_order.trans)
    qed
  qed
qed

text \<open>
  As long as every call returns and every block can be encoded, the loop goes on: the
  paper with index \<open>j\<close> is sent as the request at position \<open>j\<close> and written as the block at
  position \<open>j\<close>, also when earlier calls returned a Failure.
\<close>

lemma process_results_reaches:
  assumes "j < length results"
    and "\<forall>k\<le>j. \<exists>res. snd (translate_text_with_ollama py (net (i + k))
            (replace [0x0A] [0x20] (summary (results ! k))) model_name) = Inr res
          \<and> encodable (output_content (results ! k) (fill (returned res)))"
  shows "\<exists>res final. final = snd (process_results py net fill model_name n i results st)
      \<and> snd (translate_text_with_ollama py (net (i + j))
            (replace [0x0A] [0x20] (summary (results ! j))) model_name) = Inr res
      \<and> length (written st) + j < length (written final)
      \<and> written final ! (length (written st) + j)
          = output_content (results ! j) (fill (returned res))
      \<and> length (sent st) + j < length (sent final)
      \<and> sent final ! (length (sent st) + j)
          = build_request (replace [0x0A] [0x20] (summary (results ! j))) model_name"
  using assms
proof (induction results arbitrary: i j st)
  case Nil
  then show ?case by simp
next
  case (Cons result results)
  from Cons.prems(2) obtain res0 where res0:
    "snd (translate_text_with_ollama py (net i) (replace [0x0A] [0x20] (summary result))
       model_name) = Inr res0"
    and enc0: "encodable (output_content result (fill (returned res0)))"
    by force
  define st1 where "st1 = st\<lparr>sent := sent st
                     @ [build_request (replace [0x0A] [0x20] (summary result)) model_name],
                 written := written st @ [output_content result (fill (returned res0))],
                 sleeps := (if i < n - 1 then sleeps st + 1 else sleeps st)\<rparr>"
  define final where
    "final = snd (process_results py net fill model_name n (i + 1) results st1)"
  have step: "snd (process_results py net fill model_name n i (result # results) st) = final"
    unfolding final_def st1_def
    by (simp only: process_results_Cons_returned [where net = net and i = i and fill = fill, OF res0 enc0])
  have w: "written st1 = written st @ [output_content result (fill (returned res0))]"
    and s: "sent st1 = sent st
              @ [build_request (replace [0x0A] [0x20] (summary result)) model_name]"
    by (simp_all add: st1_def)
  show ?case
  proof (cases j)
    case 0
    from process_results_appends [where st = st1 and i = "i + 1" and results = results
        and net = net and fill = fill and model_name = model_name and n = n and py = py]
    have pw: "prefix (written st1) (written final)" and ps: "prefix (sent st1) (sent final)"
      by (simp_all add: final_def)
    from pw obtain ws where ws: "written final = written st1 @ ws"
      by (auto simp: prefix_def)
    from ps obtain ss where ss: "sent final = sent st1 @ ss"
      by (auto simp: prefix_def)
    from 0 res0 show ?thesis
      by (simp only: step) (simp add: ws ss w s nth_append)
  next
    case (Suc j')
    from Cons.prems(1) Suc have j': "j' < length results" by simp
    have all: "\<forall>k\<le>j'. \<exists>res. snd (translate_text_with_ollama py (net (i + 1 + k))
            (replace [0x0A] [0x20] (summary (results ! k))) model_name) = Inr res
          \<and> encodable (output_content (results ! k) (fill (returned res)))"
    proof (intro allI impI)
      fix k assume "k \<le> j'"
      then have "Suc k \<le> j" using Suc by simp
      with Cons.prems(2) have "\<exists>res. snd (translate_text_with_ollama py (net (i + Suc k))
            (replace [0x0A] [0x20] (summary ((result # results) ! Suc k))) model_name) = Inr res
          \<and> encodable (output_content ((result # results) ! Suc k) (fill (returned res)))"
        by blast
      then show "\<exists>res. snd (translate_text_with_ollama py (net (i + 1 + k))
            (replace [0x0A] [0x20] (summary (results ! k))) model_name) = Inr res
          \<and> encodable (output_content (results ! k) (fill (returned res)))"
        by simp
    qed
    from Cons.IH [OF j' all, where st = st1] Suc show ?thesis
      by (simp only: step) (simp add: w s final_def)
  qed
qed

section \<open>The claims\<close>

text \<open>
  C1. The claim: for every non-empty input and every behaviour of the endpoint,
  \<open>translate_text_with_ollama\<close> returns a Success or a Failure and never raises. The code
  does not do this: when the endpoint answers with status 200 and the body \<open>null\<close>, which
  is valid JSON, \<open>response_data\<close> is \<open>None\<close>, the call \<open>response_data.get\<close> raises
  \<open>AttributeError\<close>, neither handler catches it and it leaves the function. The same
  happens for any JSON value that is not an object and for an object whose
  \<open>response\<close> entry is not a string, whatever the limits of the interpreter.
\<close>

theorem C1_attribute_error_escapes:
  "translate_text_with_ollama py (fixed_endpoint (Response 200 [0x6E, 0x75, 0x6C, 0x6C]))
     text model_name
     = ([build_request text model_name], Inl AttributeError)"
  by (simp add: translate_eval decode_eval json_eval clean_eval)




text \<open>
  C3. The claim: for the body \<open>{"response": "Here is the translation: KONNICHIWA"}\<close>,
  where KONNICHIWA stands for the five hiragana U+3053 U+3093 U+306B U+3061 U+306F, the
  Success text is exactly those five characters. The code returns them after a space:
  \<open>strip\<close> runs at line 54, before the phrase is removed at line 59, so the space that
  followed the phrase is now at the front and stays. This is so for every interpreter
  that lets the scanner enter the one object of the body.
\<close>

theorem C3_leading_space_remains:
  "translate_text_with_ollama (py\<lparr>recursion_depth := Suc d\<rparr>)
     (fixed_endpoint (Response 200
        [0x7B, 0x22, 0x72, 0x65, 0x73, 0x70, 0x6F, 0x6E, 0x73, 0x65, 0x22, 0x3A, 0x20, 0x22,
        0x48, 0x65, 0x72, 0x65, 0x20, 0x69, 0x73, 0x20, 0x74, 0x68, 0x65, 0x20, 0x74, 0x72,
        0x61, 0x6E, 0x73, 0x6C, 0x61, 0x74, 0x69, 0x6F, 0x6E, 0x3A, 0x20, 0xE3, 0x81, 0x93,
        0xE3, 0x82, 0x93, 0xE3, 0x81, 0xAB, 0xE3, 0x81, 0xA1, 0xE3, 0x81, 0xAF, 0x22, 0x7D]))
     text model_name
   = ([build_request text model_name],
      Inr (Success (0x20 # [0x3053, 0x3093, 0x306B, 0x3061, 0x306F])))"
  by (simp add: translate_eval decode_eval json_eval clean_eval)

text \<open>
  C4. The claim: when the endpoint returns a valid JSON object without the key
  \<open>response\<close>, the result is a Success with the sentinel of line 54. For the objects that
  \<open>json.loads\<close> returns this is so (\<open>missing_field_gives_sentinel\<close>), but not for every
  valid object: \<open>json.loads\<close> raises \<open>ValueError\<close> on an integer of more than 4300 digits
  and \<open>RecursionError\<close> on a nesting deeper than the interpreter allows, and neither is
  caught at lines 63 to 67. With the default limits, status 200 and the body
  \<open>{"n": 1...1}\<close> with 4301 digits, and likewise the body \<open>{"a": [...[]...]}\<close> with 100000
  brackets on each side, the call returns neither the sentinel nor anything else: the
  exception leaves the function.
\<close>

theorem C4_object_without_field_raises:
  "translate_text_with_ollama cpython_defaults
     (fixed_endpoint (Response 200
        ([0x7B, 0x22, 0x6E, 0x22, 0x3A, 0x20] @ replicate 4301 0x31 @ [0x7D])))
     text model_name
   = ([build_request text model_name], Inl ValueError)
   \<and> translate_text_with_ollama cpython_defaults
       (fixed_endpoint (Response 200
          ([0x7B, 0x22, 0x61, 0x22, 0x3A, 0x20] @ replicate 100000 0x5B
           @ replicate 100000 0x5D @ [0x7D])))
       text model_name
     = ([build_request text model_name], Inl RecursionError)"
proof -
  let ?long = "[0x7B, 0x22, 0x6E, 0x22, 0x3A, 0x20] @ replicate 4301 0x31 @ [0x7D] :: byte list"
  let ?deep = "[0x7B, 0x22, 0x61, 0x22, 0x3A, 0x20] @ replicate 100000 0x5B
           @ replicate 100000 0x5D @ [0x7D] :: byte list"
  have st: "(200::nat) < 400 \<or> 600 \<le> (200::nat)" by simp
  have "bytes_decode ?long = [0x7B, 0x22, 0x6E, 0x22, 0x3A, 0x20] @ replicate 4301 0x31 @ [0x7D]"
    by (subst bytes_decode_ascii) simp_all
  moreover have "json_loads cpython_defaults
      ([0x7B, 0x22, 0x6E, 0x22, 0x3A, 0x20] @ replicate 4301 0x31 @ 0x7D # []) = Inl ValueError"
    by (rule json_loads_long_integer) (simp_all add: cpython_defaults_def is_digit_def)
  ultimately have long: "json_loads cpython_defaults (bytes_decode ?long) = Inl ValueError"
    by simp
  have "bytes_decode ?deep = [0x7B, 0x22, 0x61, 0x22, 0x3A, 0x20] @ replicate 100000 0x5B
      @ replicate 100000 0x5D @ [0x7D]"
    by (subst bytes_decode_ascii) simp_all
  moreover have "json_loads cpython_defaults
      ([0x7B, 0x22, 0x61, 0x22, 0x3A, 0x20] @ replicate 100000 0x5B
        @ (replicate 100000 0x5D @ [0x7D])) = Inl RecursionError"
    by (rule json_loads_deep_nesting) (simp add: cpython_defaults_def)
  ultimately have deep: "json_loads cpython_defaults (bytes_decode ?deep) = Inl RecursionError"
    by simp
  from translate_raises [OF st long] translate_raises [OF st deep] show ?thesis
    by simp
qed

text \<open>
  C5. The claim: decoding never raises, the bytes that are not valid UTF-8 are dropped,
  and when the bytes that are left form valid JSON, it is parsed and its text field
  extracted. The first two parts hold: \<open>bytes_decode\<close> is a total function, it keeps every
  encoding of a scalar value and drops every byte at which none starts
  (\<open>utf8_decode_keeps\<close>, \<open>utf8_decode_drops\<close>), what it keeps is a subsequence of the body
  (\<open>utf8_decode_drops_only\<close>), and the call gives what it would give on the bytes that are
  left (\<open>translate_of_kept\<close>). The last part fails where \<open>json.loads\<close> raises an exception
  that is not caught at lines 63 to 67: take the body
  \<open>{"n": 1...1, "response": "ok"}\<close> with 4301 digits and the byte 0xFF put just before
  \<open>ok\<close>. The byte is dropped and valid JSON with the text field \<open>ok\<close> is left, but with the
  default limits \<open>json.loads\<close> raises \<open>ValueError\<close>, which leaves the function: nothing is
  extracted.
\<close>

theorem C5_valid_json_not_parsed:
  "bytes_decode
     ([0x7B, 0x22, 0x6E, 0x22, 0x3A, 0x20] @ replicate 4301 0x31
      @ [0x2C, 0x20, 0x22, 0x72, 0x65, 0x73, 0x70, 0x6F, 0x6E, 0x73, 0x65, 0x22, 0x3A, 0x20,
         0x22, 0xFF, 0x6F, 0x6B, 0x22, 0x7D])
   = [0x7B, 0x22, 0x6E, 0x22, 0x3A, 0x20] @ replicate 4301 0x31
      @ [0x2C, 0x20, 0x22, 0x72, 0x65, 0x73, 0x70, 0x6F, 0x6E, 0x73, 0x65, 0x22, 0x3A, 0x20,
         0x22, 0x6F, 0x6B, 0x22, 0x7D]
   \<and> translate_text_with_ollama cpython_defaults
       (fixed_endpoint (Response 200
          ([0x7B, 0x22, 0x6E, 0x22, 0x3A, 0x20] @ replicate 4301 0x31
           @ [0x2C, 0x20, 0x22, 0x72, 0x65, 0x73, 0x70, 0x6F, 0x6E, 0x73, 0x65, 0x22, 0x3A,
              0x20, 0x22, 0xFF, 0x6F, 0x6B, 0x22, 0x7D])))
       text model_name
     = ([build_request text model_name], Inl ValueError)"
proof -
  let ?body = "[0x7B, 0x22, 0x6E, 0x22, 0x3A, 0x20] @ replicate 4301 0x31
      @ [0x2C, 0x20, 0x22, 0x72, 0x65, 0x73, 0x70, 0x6F, 0x6E, 0x73, 0x65, 0x22, 0x3A, 0x20,
         0x22, 0xFF, 0x6F, 0x6B, 0x22, 0x7D] :: byte list"
  let ?front = "[0x7B, 0x22, 0x6E, 0x22, 0x3A, 0x20] @ replicate 4301 0x31
      @ [0x2C, 0x20, 0x22, 0x72, 0x65, 0x73, 0x70, 0x6F, 0x6E, 0x73, 0x65, 0x22, 0x3A, 0x20,
         0x22] :: nat list"
  have st: "(200::nat) < 400 \<or> 600 \<le> (200::nat)" by simp
  have "map unat ?body = ?front @ [0xFF, 0x6F, 0x6B, 0x22, 0x7D]"
    by simp
  moreover have "utf8_decode_ignore (?front @ [0xFF, 0x6F, 0x6B, 0x22, 0x7D])
      = ?front @ utf8_decode_ignore [0xFF, 0x6F, 0x6B, 0x22, 0x7D]"
    by (rule utf8_decode_ascii) simp
  moreover have "utf8_decode_ignore [0xFF, 0x6F, 0x6B, 0x22, 0x7D] = [0x6F, 0x6B, 0x22, 0x7D]"
    by (simp add: decode_eval)
  ultimately have dec: "bytes_decode ?body = [0x7B, 0x22, 0x6E, 0x22, 0x3A, 0x20]
      @ replicate 4301 0x31
      @ [0x2C, 0x20, 0x22, 0x72, 0x65, 0x73, 0x70, 0x6F, 0x6E, 0x73, 0x65, 0x22, 0x3A, 0x20,
         0x22, 0x6F, 0x6B, 0x22, 0x7D]"
    by (simp add: bytes_decode_def)
  have "json_loads cpython_defaults
      ([0x7B, 0x22, 0x6E, 0x22, 0x3A, 0x20] @ replicate 4301 0x31
        @ 0x2C # [0x20, 0x22, 0x72, 0x65, 0x73, 0x70, 0x6F, 0x6E, 0x73, 0x65, 0x22, 0x3A, 0x20,
         0x22, 0x6F, 0x6B, 0x22, 0x7D]) = Inl ValueError"
    by (rule json_loads_long_integer) (simp_all add: cpython_defaults_def is_digit_def)
  with dec have "json_loads cpython_defaults (bytes_decode ?body) = Inl ValueError"
    by simp
  from translate_raises [OF st this] dec show ?thesis
    by simp
qed

text \<open>
  C6. For every text, the empty one included, and every model name, exactly one request
  is sent: to the fixed URL, with the model name, the prompt made of the fixed head, the
  text and the fixed tail, streaming off and a timeout of 180 seconds. The head ends with
  the start marker and the tail begins with the end marker, so the text stands between
  the two delimiter lines.
\<close>

theorem C6_one_request:
  "fst (translate_text_with_ollama py endpoint text model_name)
     = [\<lparr>url = asc ''http://localhost:11434/api/generate'', model = model_name,
         prompt = prompt_head @ text @ prompt_tail, stream = False, timeout = 180\<rparr>]
   \<and> suffix (asc ''--- English Abstract ---\<newline>'') prompt_head
   \<and> prefix (asc ''\<newline>--- End of Abstract ---'') prompt_tail"
  by (simp add: translate_text_with_ollama_def build_request_def OLLAMA_API_URL_def Let_def
      prompt_head_def prompt_tail_def asc_def suffix_def)

text \<open>
  C7. Two calls with the same text and model name, made when the endpoint behaves as
  \<open>net i\<close> and as \<open>net j\<close>, give the same result as soon as the endpoint gives the same
  reply to the request built from them; this is so in particular when the behaviour of
  the endpoint is one fixed function.
\<close>

theorem C7_same_reply_same_result:
  assumes "net i (build_request text model_name) = net j (build_request text model_name)"
  shows "translate_text_with_ollama py (net i) text model_name
           = translate_text_with_ollama py (net j) text model_name"
  using assms by (simp add: translate_text_with_ollama_def Let_def)

text \<open>
  Witness for C7: an endpoint that refuses every connection and one that does so only for
  the model \<open>llama3\<close> give the same result for that model.
\<close>

theorem C7_same_reply_same_result_witness:
  "translate_text_with_ollama cpython_defaults (fixed_endpoint ConnectionError)
     [0x48, 0x69] (asc ''llama3'')
     = translate_text_with_ollama cpython_defaults
         (\<lambda>request. if model request = asc ''llama3'' then ConnectionError else Timeout)
         [0x48, 0x69] (asc ''llama3'')"
proof -
  let ?net = "\<lambda>k::nat. if k = 0 then (fixed_endpoint ConnectionError)
                else (\<lambda>request. if model request = asc ''llama3'' then ConnectionError
                                  else Timeout)"
  have h: "?net 0 (build_request [0x48, 0x69] (asc ''llama3''))
             = ?net 1 (build_request [0x48, 0x69] (asc ''llama3''))"
    by (simp add: build_request_def fixed_endpoint_def)
  from C7_same_reply_same_result [of ?net 0 "[0x48, 0x69]" "asc ''llama3''" 1
      cpython_defaults, OF h]
  show ?thesis by simp
qed

text \<open>
  The loop goes on after a Failure, and after a Success, as long as every call returns
  and every block can be written: the paper with index \<open>j\<close> is then translated, by the
  request at position \<open>j\<close> of the requests sent, and written, as the block at position \<open>j\<close>
  of the file.
\<close>

lemma loop_goes_on_while_calls_return:
  assumes "search_and_translate_papers py net fill results model_name = Some (e, st)"
    and "j < length results"
    and "\<forall>k\<le>j. \<exists>res. snd (translate_text_with_ollama py (net k)
            (replace [0x0A] [0x20] (summary (results ! k))) model_name) = Inr res
          \<and> encodable (output_content (results ! k) (fill (returned res)))"
  shows "\<exists>res. snd (translate_text_with_ollama py (net j)
            (replace [0x0A] [0x20] (summary (results ! j))) model_name) = Inr res
      \<and> j < length (sent st)
      \<and> sent st ! j = build_request (replace [0x0A] [0x20] (summary (results ! j))) model_name
      \<and> j < length (written st)
      \<and> written st ! j = output_content (results ! j) (fill (returned res))"
proof -
  from assms(2) have "results \<noteq> []" by auto
  with assms(1) have st: "st = snd (process_results py net fill model_name (length results) 0
      results \<lparr>written = [], sleeps = 0, sent = []\<rparr>)"
    by (simp add: search_and_translate_papers_def split: if_splits)
  from assms(3) have all: "\<forall>k\<le>j. \<exists>res. snd (translate_text_with_ollama py (net (0 + k))
            (replace [0x0A] [0x20] (summary (results ! k))) model_name) = Inr res
          \<and> encodable (output_content (results ! k) (fill (returned res)))"
    by simp
  from process_results_reaches [OF assms(2) all,
      where st = "\<lparr>written = [], sleeps = 0, sent = []\<rparr>" and n = "length results"]
  show ?thesis
    by (simp add: st) blast
qed

text \<open>
  C8. The claim: a Failure on one record never aborts the loop; for every sequence of
  records and every outcome of each record, each record after a failed one is still
  translated and written. After a Failure the loop does go on, but not for every outcome
  of a later record: an exception ends the loop, since the only handler (line 144) is
  outside it. Take three papers and an endpoint that answers the first call with the body
  \<open>hello\<close>, which is not JSON, so the first paper is a Failure and is written with the
  message of line 67. When the second call gets the body \<open>null\<close>, \<open>AttributeError\<close> leaves
  \<open>translate_text_with_ollama\<close> (C1) and the loop; when it gets
  \<open>{"response": "x\ud83dy"}\<close>, the Success text holds a lone surrogate and the write at
  line 135 raises \<open>UnicodeEncodeError\<close>. Both times the file holds the first block only and
  the third paper, which comes after the failed one, is never sent to the endpoint. The
  texts written here have fewer than 50 characters and no blank, so wrapping them changes
  nothing and the identity stands for \<open>textwrap.fill\<close>.
\<close>

theorem C8_exception_stops_loop:
  "snd (translate_text_with_ollama cpython_defaults
          (replies_in_turn
             [Response 200 [0x68, 0x65, 0x6C, 0x6C, 0x6F],
              Response 200 [0x6E, 0x75, 0x6C, 0x6C],
              Response 200 [0x7B, 0x22, 0x72, 0x65, 0x73, 0x70, 0x6F, 0x6E, 0x73, 0x65, 0x22,
                            0x3A, 0x20, 0x22, 0x6F, 0x6B, 0x22, 0x7D]] 0)
          (asc ''a b'') (asc ''llama3''))
     = Inr (Failure parse_error_message)
   \<and> search_and_translate_papers cpython_defaults
       (replies_in_turn
          [Response 200 [0x68, 0x65, 0x6C, 0x6C, 0x6F],
           Response 200 [0x6E, 0x75, 0x6C, 0x6C],
           Response 200 [0x7B, 0x22, 0x72, 0x65, 0x73, 0x70, 0x6F, 0x6E, 0x73, 0x65, 0x22,
                         0x3A, 0x20, 0x22, 0x6F, 0x6B, 0x22, 0x7D]])
       id
       [\<lparr>title = asc ''T0'', summary = asc ''a\<newline>b'', entry_id = asc ''u0''\<rparr>,
        \<lparr>title = asc ''T1'', summary = asc ''c'', entry_id = asc ''u1''\<rparr>,
        \<lparr>title = asc ''T2'', summary = asc ''d'', entry_id = asc ''u2''\<rparr>]
       (asc ''llama3'')
     = Some (Some AttributeError,
         \<lparr>written = [output_content
              \<lparr>title = asc ''T0'', summary = asc ''a\<newline>b'', entry_id = asc ''u0''\<rparr>
              parse_error_message],
          sleeps = 1,
          sent = [build_request (asc ''a b'') (asc ''llama3''),
                  build_request (asc ''c'') (asc ''llama3'')]\<rparr>)
   \<and> search_and_translate_papers cpython_defaults
       (replies_in_turn
          [Response 200 [0x68, 0x65, 0x6C, 0x6C, 0x6F],
           Response 200 [0x7B, 0x22, 0x72, 0x65, 0x73, 0x70, 0x6F, 0x6E, 0x73, 0x65, 0x22,
                         0x3A, 0x20, 0x22, 0x78, 0x5C, 0x75, 0x64, 0x38, 0x33, 0x64, 0x79,
                         0x22, 0x7D],
           Response 200 [0x7B, 0x22, 0x72, 0x65, 0x73, 0x70, 0x6F, 0x6E, 0x73, 0x65, 0x22,
                         0x3A, 0x20, 0x22, 0x6F, 0x6B, 0x22, 0x7D]])
       id
       [\<lparr>title = asc ''T0'', summary = asc ''a\<newline>b'', entry_id = asc ''u0''\<rparr>,
        \<lparr>title = asc ''T1'', summary = asc ''c'', entry_id = asc ''u1''\<rparr>,
        \<lparr>title = asc ''T2'', summary = asc ''d'', entry_id = asc ''u2''\<rparr>]
       (asc ''llama3'')
     = Some (Some UnicodeEncodeError,
         \<lparr>written = [output_content
              \<lparr>title = asc ''T0'', summary = asc ''a\<newline>b'', entry_id = asc ''u0''\<rparr>
              parse_error_message],
          sleeps = 1,
          sent = [build_request (asc ''a b'') (asc ''llama3''),
                  build_request (asc ''c'') (asc ''llama3'')]\<rparr>)"
proof -
  let ?hello = "Response 200 [0x68, 0x65, 0x6C, 0x6C, 0x6F]"
  let ?null = "Response 200 [0x6E, 0x75, 0x6C, 0x6C]"
  let ?lone = "Response 200 [0x7B, 0x22, 0x72, 0x65, 0x73, 0x70, 0x6F, 0x6E, 0x73, 0x65, 0x22,
                         0x3A, 0x20, 0x22, 0x78, 0x5C, 0x75, 0x64, 0x38, 0x33, 0x64, 0x79,
                         0x22, 0x7D]"
  have t_hello: "translate_text_with_ollama cpython_defaults (fixed_endpoint ?hello) t m
      = ([build_request t m], Inr (Failure parse_error_message))" for t m
    by (simp add: translate_eval decode_eval json_eval)
  have t_null: "translate_text_with_ollama cpython_defaults (fixed_endpoint ?null) t m
      = ([build_request t m], Inl AttributeError)" for t m
    by (simp add: translate_eval decode_eval json_eval clean_eval)
  have t_lone: "translate_text_with_ollama cpython_defaults (fixed_endpoint ?lone) t m
      = ([build_request t m], Inr (Success [0x78, 0xD83D, 0x79]))" for t m
    by (simp add: translate_eval decode_eval json_eval clean_eval)
  have turn0: "replies_in_turn (r0 # rs) 0 = fixed_endpoint r0" for r0 rs
    by (rule ext) (simp add: replies_in_turn_def fixed_endpoint_def)
  have turn1: "replies_in_turn (r0 # r1 # rs) (Suc 0) = fixed_endpoint r1" for r0 r1 rs
    by (rule ext) (simp add: replies_in_turn_def fixed_endpoint_def)
  have a0: "replace [0x0A] [0x20] (asc ''a\<newline>b'') = asc ''a b''"
    by (simp add: asc_def replace_Cons replace_Nil)
  have a1: "replace [0x0A] [0x20] (asc ''c'') = asc ''c''"
    by (simp add: asc_def replace_Cons replace_Nil)
  have ok0: "encodable (output_content
      \<lparr>title = asc ''T0'', summary = asc ''a\<newline>b'', entry_id = asc ''u0''\<rparr>
      parse_error_message)"
    by (simp add: encodable_def list_all_iff output_content_def parse_error_message_def
        asc_def is_scalar_value_def)
  have bad1: "\<not> encodable (output_content
      \<lparr>title = asc ''T1'', summary = asc ''c'', entry_id = asc ''u1''\<rparr>
      [0x78, 0xD83D, 0x79])"
    by (simp add: encodable_def list_all_iff output_content_def asc_def is_scalar_value_def)
  show ?thesis
    by (simp add: search_and_translate_papers_def Let_def turn0 turn1 t_hello t_null t_lone
        a0 a1 ok0 bad1)
qed









text \<open>
  C10. The outputs of Success and Failure overlap under the string interface: whenever a
  Success text begins with the marker, \<open>is_translation_error\<close> is true of the returned
  string, and such a Success exists: for status 200 and the body \<open>{"response": MARKER}\<close>,
  where MARKER stands for the five characters of \<open>error_marker\<close>, the call succeeds and
  returns the marker itself.
\<close>

theorem C10_success_with_marker:
  "(\<forall>py endpoint text model_name t.
      snd (translate_text_with_ollama py endpoint text model_name) = Inr (Success t)
      \<and> prefix error_marker t \<longrightarrow> is_translation_error (returned (Success t)))
   \<and> snd (translate_text_with_ollama cpython_defaults
          (fixed_endpoint (Response 200
             [0x7B, 0x22, 0x72, 0x65, 0x73, 0x70, 0x6F, 0x6E, 0x73, 0x65, 0x22, 0x3A, 0x20,
             0x22, 0xE7, 0xBF, 0xBB, 0xE8, 0xA8, 0xB3, 0xE3, 0x82, 0xA8, 0xE3, 0x83, 0xA9,
             0xE3, 0x83, 0xBC, 0x22, 0x7D]))
          [0x48, 0x69] (asc ''llama3''))
       = Inr (Success error_marker)
   \<and> is_translation_error error_marker"
proof -
  have "snd (translate_text_with_ollama cpython_defaults
          (fixed_endpoint (Response 200
             [0x7B, 0x22, 0x72, 0x65, 0x73, 0x70, 0x6F, 0x6E, 0x73, 0x65, 0x22, 0x3A, 0x20,
             0x22, 0xE7, 0xBF, 0xBB, 0xE8, 0xA8, 0xB3, 0xE3, 0x82, 0xA8, 0xE3, 0x83, 0xA9,
             0xE3, 0x83, 0xBC, 0x22, 0x7D]))
          [0x48, 0x69] (asc ''llama3''))
       = Inr (Success error_marker)"
    by (simp add: translate_eval decode_eval json_eval clean_eval error_marker_def)
  then show ?thesis
    by (simp add: is_translation_error_def)
qed

text \<open>Witness for C10: the general part applied to that call.\<close>

theorem C10_success_with_marker_witness:
  "snd (translate_text_with_ollama cpython_defaults
          (fixed_endpoint (Response 200
             [0x7B, 0x22, 0x72, 0x65, 0x73, 0x70, 0x6F, 0x6E, 0x73, 0x65, 0x22, 0x3A, 0x20,
             0x22, 0xE7, 0xBF, 0xBB, 0xE8, 0xA8, 0xB3, 0xE3, 0x82, 0xA8, 0xE3, 0x83, 0xA9,
             0xE3, 0x83, 0xBC, 0x22, 0x7D]))
          [0x48, 0x69] (asc ''llama3''))
       = Inr (Success error_marker)
   \<and> prefix error_marker error_marker
   \<and> is_translation_error (returned (Success error_marker))"
  using C10_success_with_marker by simp

end
